theory Spec2Isabelle
  imports Main
begin

section \<open>Documents, filters and collations\<close>

text \<open>
  The adapter hands Python dictionaries to the document database and receives dictionaries
  back. A dictionary is an association list from field names to values; the values are the
  BSON values the adapter can send or receive. A UUID is a number here, a string is a list
  of bytes.
\<close>

type_synonym uuid = nat

datatype bson =
    BNull
  | BBool bool
  | BInt int
  | BString string
  | BUuid uuid
  | BObjectId nat
  | BArray "bson list"
  | BDoc "(string \<times> bson) list"

type_synonym document = "(string \<times> bson) list"

text \<open>The exceptions that can leave the adapter: two raised by the storage engine, one by
  the user model's constructor.\<close>

datatype error = DuplicateKeyError | OperationFailure | ValidationError

text \<open>
  \<^verbatim>\<open>Collation("en", strength=2)\<close>: a locale and a comparison strength. The comparison
  itself is done by the storage engine. Strengths 1 and 2 ignore letter case, strength 3 and
  above compare exactly. Strings are byte strings here, and the case folding covers the
  ASCII letters: every other byte, so every accented letter, is compared as it is (also at
  strength 1, where the storage engine would ignore the accent).
\<close>

datatype collation = Collation (locale_name: string) (strength: nat)

definition ascii_lower :: "char \<Rightarrow> char" where
  "ascii_lower c =
     (case c of Char b0 b1 b2 b3 b4 b5 b6 b7 \<Rightarrow>
        if 65 \<le> (of_char c :: nat) \<and> (of_char c :: nat) \<le> 90
        then Char b0 b1 b2 b3 b4 True b6 b7 else c)"

definition collation_key :: "collation option \<Rightarrow> string \<Rightarrow> string" where
  "collation_key co s =
     (case co of
        None \<Rightarrow> s
      | Some c \<Rightarrow> if strength c < 3 then map ascii_lower s else s)"

text \<open>Equality of a stored value and a queried value; a collation applies to strings.\<close>

definition value_eq :: "collation option \<Rightarrow> bson \<Rightarrow> bson \<Rightarrow> bool" where
  "value_eq co v q =
     (case (v, q) of
        (BString a, BString b) \<Rightarrow> collation_key co a = collation_key co b
      | _ \<Rightarrow> v = q)"

text \<open>A value at the end of a path matches when it equals the queried value, or when it is
  an array with an element that does.\<close>

definition leaf_match :: "collation option \<Rightarrow> bson \<Rightarrow> bson \<Rightarrow> bool" where
  "leaf_match co v q =
     (value_eq co v q \<or>
      (case v of BArray xs \<Rightarrow> list_ex (\<lambda>e. value_eq co e q) xs | _ \<Rightarrow> False))"

text \<open>A filter key is a dotted path: \<^verbatim>\<open>"oauth_accounts.oauth_name"\<close> names the field
  \<^verbatim>\<open>oauth_name\<close> below the field \<^verbatim>\<open>oauth_accounts\<close>.\<close>

fun split_path :: "string \<Rightarrow> string list" where
  "split_path [] = [[]]"
| "split_path (c # cs) =
     (if c = CHR ''.'' then [] # split_path cs
      else (case split_path cs of [] \<Rightarrow> [[c]] | p # ps \<Rightarrow> (c # p) # ps))"

text \<open>
  One condition \<^verbatim>\<open>{path: q}\<close> of a filter, on one document. A path that runs into an
  array continues in each element of the array, and the condition holds when it holds in
  some element. A missing field equals only the null value; the adapter never asks for the
  null value.
\<close>

fun match_path :: "collation option \<Rightarrow> string list \<Rightarrow> bson \<Rightarrow> document \<Rightarrow> bool" where
  "match_path co [] q d = False"
| "match_path co (f # fs) q d =
     (case map_of d f of
        None \<Rightarrow> q = BNull
      | Some v \<Rightarrow>
          if fs = [] then leaf_match co v q
          else (case v of
                  BDoc d' \<Rightarrow> match_path co fs q d'
                | BArray xs \<Rightarrow>
                    list_ex (\<lambda>e. case e of BDoc d' \<Rightarrow> match_path co fs q d' | _ \<Rightarrow> False) xs
                | _ \<Rightarrow> False))"

text \<open>A filter is a dictionary of conditions; a document matches when every condition
  holds, each one on its own.\<close>

type_synonym filter = "(string \<times> bson) list"

definition matches :: "collation option \<Rightarrow> filter \<Rightarrow> document \<Rightarrow> bool" where
  "matches co flt d = list_all (\<lambda>(k, q). match_path co (split_path k) q d) flt"


section \<open>The collection behind the handle\<close>

text \<open>
  The source takes the collection from the driver (\<^verbatim>\<open>AsyncIOMotorCollection\<close>); driver and
  server are not part of the repository. This section describes the five calls the adapter
  makes as MongoDB documents them: \<^verbatim>\<open>find_one\<close>, \<^verbatim>\<open>insert_one\<close>, \<^verbatim>\<open>replace_one\<close>,
  \<^verbatim>\<open>delete_one\<close> and \<^verbatim>\<open>create_index\<close>. Each \<^verbatim>\<open>await\<close> is a call that returns its result
  or the exception it raises, together with the collection afterwards.

  The state of the collection: the documents in their natural order, the indexes created so
  far, the counter the driver draws fresh \<^verbatim>\<open>_id\<close> values from, and the list of
  \<^verbatim>\<open>create_index\<close> calls the collection has received (kept to count them). An index is on
  one field, under the default name the field gives it; it may be unique and may carry a
  collation, under which its string keys are compared. The key of a document is the value
  of the field, null when the field is missing; an array is one key (the adapter indexes
  \<^verbatim>\<open>id\<close> and \<^verbatim>\<open>email\<close>, which are no arrays in a user document).
\<close>

record index =
  key :: string
  unique :: bool
  collation :: "collation option"

record collection =
  docs :: "document list"
  indexes :: "index list"
  create_index_calls :: "(string \<times> bool \<times> collation option) list"
  next_oid :: nat

definition index_key :: "collation option \<Rightarrow> string \<Rightarrow> document \<Rightarrow> bson" where
  "index_key co f d =
     (case map_of d f of
        None \<Rightarrow> BNull
      | Some (BString s) \<Rightarrow> BString (collation_key co s)
      | Some v \<Rightarrow> v)"

text \<open>A document collides with the stored ones when its \<^verbatim>\<open>_id\<close> or its key under a unique
  index is the key of a stored document.\<close>

definition key_taken :: "collation option \<Rightarrow> string \<Rightarrow> document \<Rightarrow> document list \<Rightarrow> bool" where
  "key_taken co f d ds = list_ex (\<lambda>d'. index_key co f d' = index_key co f d) ds"

definition duplicate_key :: "index list \<Rightarrow> document \<Rightarrow> document list \<Rightarrow> bool" where
  "duplicate_key ixs d ds =
     list_ex (\<lambda>ix. unique ix \<and> key_taken (collation ix) (key ix) d ds) ixs"

definition find_one :: "filter \<Rightarrow> collation option \<Rightarrow> collection \<Rightarrow> document option" where
  "find_one flt co c = find (matches co flt) (docs c)"

text \<open>A document inserted without an \<^verbatim>\<open>_id\<close> is given a fresh one.\<close>

definition stored_form :: "nat \<Rightarrow> document \<Rightarrow> document" where
  "stored_form n d = (if map_of d ''_id'' = None then (''_id'', BObjectId n) # d else d)"

definition insert_one :: "document \<Rightarrow> collection \<Rightarrow> (error + unit) \<times> collection" where
  "insert_one d c =
     (let d' = stored_form (next_oid c) d;
          c' = c\<lparr>next_oid := Suc (next_oid c)\<rparr>
      in if key_taken None ''_id'' d' (docs c) \<or> duplicate_key (indexes c) d' (docs c)
         then (Inl DuplicateKeyError, c')
         else (Inr (), c'\<lparr>docs := docs c @ [d']\<rparr>))"

fun delete_first :: "('a \<Rightarrow> bool) \<Rightarrow> 'a list \<Rightarrow> 'a list" where
  "delete_first P [] = []"
| "delete_first P (x # xs) = (if P x then xs else x # delete_first P xs)"

fun replace_first :: "('a \<Rightarrow> bool) \<Rightarrow> 'a \<Rightarrow> 'a list \<Rightarrow> 'a list" where
  "replace_first P y [] = []"
| "replace_first P y (x # xs) = (if P x then y # xs else x # replace_first P y xs)"

text \<open>\<^verbatim>\<open>replace_one\<close> without upsert: the first matching document is replaced by the given
  one and keeps its \<^verbatim>\<open>_id\<close>; with no match nothing is written.\<close>

definition replace_one :: "filter \<Rightarrow> document \<Rightarrow> collection \<Rightarrow> (error + unit) \<times> collection" where
  "replace_one flt d c =
     (case find (matches None flt) (docs c) of
        None \<Rightarrow> (Inr (), c)
      | Some old \<Rightarrow>
          if map_of d ''_id'' \<noteq> None \<and> map_of d ''_id'' \<noteq> map_of old ''_id''
          then (Inl OperationFailure, c)
          else
            (let d' = (case (map_of d ''_id'', map_of old ''_id'') of
                         (None, Some v) \<Rightarrow> (''_id'', v) # d
                       | _ \<Rightarrow> d);
                 others = delete_first (matches None flt) (docs c)
             in if duplicate_key (indexes c) d' others
                then (Inl DuplicateKeyError, c)
                else (Inr (), c\<lparr>docs := replace_first (matches None flt) d' (docs c)\<rparr>)))"

definition delete_one :: "filter \<Rightarrow> collection \<Rightarrow> (error + unit) \<times> collection" where
  "delete_one flt c = (Inr (), c\<lparr>docs := delete_first (matches None flt) (docs c)\<rparr>)"

text \<open>\<^verbatim>\<open>create_index(field, unique=u, collation=co)\<close>: nothing to do when the same index
  exists, refused when an index on the field exists with other options, refused when a
  unique index is asked for and two stored documents share a key. It returns the name of
  the index.\<close>

definition create_index ::
  "string \<Rightarrow> bool \<Rightarrow> collation option \<Rightarrow> collection \<Rightarrow> (error + string) \<times> collection" where
  "create_index f u co c =
     (let ix = \<lparr>key = f, unique = u, collation = co\<rparr>;
          c' = c\<lparr>create_index_calls := create_index_calls c @ [(f, u, co)]\<rparr>
      in if ix \<in> set (indexes c) then (Inr (f @ ''_1''), c')
         else if list_ex (\<lambda>ix'. key ix' = f) (indexes c) then (Inl OperationFailure, c')
         else if u \<and> \<not> distinct (map (index_key co f) (docs c))
         then (Inl DuplicateKeyError, c')
         else (Inr (f @ ''_1''), c'\<lparr>indexes := indexes c @ [ix]\<rparr>))"


section \<open>The adapter\<close>

text \<open>
  The adapter is generic in the user model \<^verbatim>\<open>UD\<close>. It uses three things of it: the
  constructor \<^verbatim>\<open>user_db_model(**document)\<close>, which may reject a document, the method
  \<^verbatim>\<open>user.dict()\<close> and the attribute \<^verbatim>\<open>user.id\<close> (\<open>id_of\<close> here). The constructor
  \<^verbatim>\<open>__init__\<close> is \<open>init\<close>, the method \<^verbatim>\<open>_initialize\<close> is \<open>initialize\<close>. Every method takes
  the store and returns its result, or the exception that leaves it, with the store
  afterwards.
\<close>

record 'u UD =
  construct :: "document \<Rightarrow> error + 'u"
  dict :: "'u \<Rightarrow> document"
  id_of :: "'u \<Rightarrow> uuid"

record 'u MongoDBUserDatabase =
  user_db_model :: "'u UD"
  collection :: collection
  initialized :: bool
  email_collation :: collation

type_synonym ('u, 'a) call = "'u MongoDBUserDatabase \<Rightarrow> (error + 'a) \<times> 'u MongoDBUserDatabase"

definition init :: "'u UD \<Rightarrow> collection \<Rightarrow> collation option \<Rightarrow> 'u MongoDBUserDatabase" where
  "init model coll email_coll =
     \<lparr>user_db_model = model, collection = coll, initialized = False,
      email_collation = (case email_coll of Some c \<Rightarrow> c | None \<Rightarrow> Collation ''en'' 2)\<rparr>"

definition initialize :: "('u, unit) call" where
  "initialize s =
     (if \<not> initialized s then
        (case create_index ''id'' True None (collection s) of
           (Inl e, c1) \<Rightarrow> (Inl e, s\<lparr>collection := c1\<rparr>)
         | (Inr _, c1) \<Rightarrow>
             (case create_index ''email'' True None c1 of
                (Inl e, c2) \<Rightarrow> (Inl e, s\<lparr>collection := c2\<rparr>)
              | (Inr _, c2) \<Rightarrow> (Inr (), s\<lparr>collection := c2, initialized := True\<rparr>)))
      else (Inr (), s))"

text \<open>\<^verbatim>\<open>self.user_db_model(**user) if user else None\<close>: no document and the empty
  dictionary both give \<^verbatim>\<open>None\<close>.\<close>

definition to_user :: "'u UD \<Rightarrow> document option \<Rightarrow> error + 'u option" where
  "to_user model user =
     (case user of
        None \<Rightarrow> Inr None
      | Some d \<Rightarrow>
          if d = [] then Inr None
          else (case construct model d of Inl e \<Rightarrow> Inl e | Inr u \<Rightarrow> Inr (Some u)))"

definition get :: "uuid \<Rightarrow> ('u, 'u option) call" where
  "get i s =
     (case initialize s of
        (Inl e, s1) \<Rightarrow> (Inl e, s1)
      | (Inr _, s1) \<Rightarrow>
          (to_user (user_db_model s1) (find_one [(''id'', BUuid i)] None (collection s1)), s1))"

definition get_by_email :: "string \<Rightarrow> ('u, 'u option) call" where
  "get_by_email email s =
     (case initialize s of
        (Inl e, s1) \<Rightarrow> (Inl e, s1)
      | (Inr _, s1) \<Rightarrow>
          (to_user (user_db_model s1)
             (find_one [(''email'', BString email)] (Some (email_collation s1)) (collection s1)),
           s1))"

definition get_by_oauth_account :: "string \<Rightarrow> string \<Rightarrow> ('u, 'u option) call" where
  "get_by_oauth_account oauth account_id s =
     (case initialize s of
        (Inl e, s1) \<Rightarrow> (Inl e, s1)
      | (Inr _, s1) \<Rightarrow>
          (to_user (user_db_model s1)
             (find_one
                [(''oauth_accounts.oauth_name'', BString oauth),
                 (''oauth_accounts.account_id'', BString account_id)]
                None (collection s1)),
           s1))"

definition create :: "'u \<Rightarrow> ('u, 'u) call" where
  "create user s =
     (case initialize s of
        (Inl e, s1) \<Rightarrow> (Inl e, s1)
      | (Inr _, s1) \<Rightarrow>
          (case insert_one (dict (user_db_model s1) user) (collection s1) of
             (Inl e, c) \<Rightarrow> (Inl e, s1\<lparr>collection := c\<rparr>)
           | (Inr _, c) \<Rightarrow> (Inr user, s1\<lparr>collection := c\<rparr>)))"

definition update :: "'u \<Rightarrow> ('u, 'u) call" where
  "update user s =
     (case initialize s of
        (Inl e, s1) \<Rightarrow> (Inl e, s1)
      | (Inr _, s1) \<Rightarrow>
          (case replace_one [(''id'', BUuid (id_of (user_db_model s1) user))]
                  (dict (user_db_model s1) user) (collection s1) of
             (Inl e, c) \<Rightarrow> (Inl e, s1\<lparr>collection := c\<rparr>)
           | (Inr _, c) \<Rightarrow> (Inr user, s1\<lparr>collection := c\<rparr>)))"

definition delete :: "'u \<Rightarrow> ('u, unit) call" where
  "delete user s =
     (case initialize s of
        (Inl e, s1) \<Rightarrow> (Inl e, s1)
      | (Inr _, s1) \<Rightarrow>
          (case delete_one [(''id'', BUuid (id_of (user_db_model s1) user))] (collection s1) of
             (Inl e, c) \<Rightarrow> (Inl e, s1\<lparr>collection := c\<rparr>)
           | (Inr _, c) \<Rightarrow> (Inr (), s1\<lparr>collection := c\<rparr>)))"


text \<open>The six public operations as values, to speak of any one of them and of sequences
  of them.\<close>

datatype 'u operation =
    Get uuid
  | GetByEmail string
  | GetByOAuthAccount string string
  | Create 'u
  | Update 'u
  | Delete 'u

datatype 'u outcome = Found "'u option" | Stored 'u | Deleted

definition returning :: "('a \<Rightarrow> 'b) \<Rightarrow> (error + 'a) \<times> 's \<Rightarrow> (error + 'b) \<times> 's" where
  "returning f r = (case r of (Inl e, s) \<Rightarrow> (Inl e, s) | (Inr x, s) \<Rightarrow> (Inr (f x), s))"

fun run :: "'u operation \<Rightarrow> ('u, 'u outcome) call" where
  "run (Get i) s = returning Found (get i s)"
| "run (GetByEmail e) s = returning Found (get_by_email e s)"
| "run (GetByOAuthAccount p a) s = returning Found (get_by_oauth_account p a s)"
| "run (Create u) s = returning Stored (create u s)"
| "run (Update u) s = returning Stored (update u s)"
| "run (Delete u) s = returning (\<lambda>_. Deleted) (delete u s)"

fun run_all :: "'u operation list \<Rightarrow> 'u MongoDBUserDatabase \<Rightarrow> 'u MongoDBUserDatabase" where
  "run_all [] s = s"
| "run_all (op # ops) s = run_all ops (snd (run op s))"


section \<open>Well-formed stores\<close>

text \<open>
  What the adapter relies on and keeps: the collection holds user documents only (an
  \<^verbatim>\<open>id\<close> that is a UUID, an \<^verbatim>\<open>email\<close> that is a string, an \<^verbatim>\<open>_id\<close> drawn from the
  counter), no two of them share an \<^verbatim>\<open>id\<close> or an exactly equal \<^verbatim>\<open>email\<close>, the indexes are
  the adapter's own two, and a store that is marked initialized has both. A store built on
  an empty collection is well formed, and every operation keeps it so.
\<close>

definition id_index :: index where
  "id_index = \<lparr>key = ''id'', unique = True, collation = None\<rparr>"

definition email_index :: index where
  "email_index = \<lparr>key = ''email'', unique = True, collation = None\<rparr>"

definition user_document :: "nat \<Rightarrow> document \<Rightarrow> bool" where
  "user_document n d =
     ((case map_of d ''id'' of Some (BUuid _) \<Rightarrow> True | _ \<Rightarrow> False) \<and>
      (case map_of d ''email'' of Some (BString _) \<Rightarrow> True | _ \<Rightarrow> False) \<and>
      (case map_of d ''_id'' of Some (BObjectId k) \<Rightarrow> k < n | _ \<Rightarrow> False))"

definition collection_inv :: "collection \<Rightarrow> bool" where
  "collection_inv c =
     (list_all (user_document (next_oid c)) (docs c) \<and>
      distinct (map (index_key None ''id'') (docs c)) \<and>
      distinct (map (index_key None ''email'') (docs c)) \<and>
      list_all (\<lambda>ix. ix = id_index \<or> ix = email_index) (indexes c))"

definition store_inv :: "'u MongoDBUserDatabase \<Rightarrow> bool" where
  "store_inv s =
     (collection_inv (collection s) \<and>
      (initialized s \<longrightarrow>
         id_index \<in> set (indexes (collection s)) \<and> email_index \<in> set (indexes (collection s))))"

text \<open>Two states of a store with the same initialization: the same flag, the same
  \<^verbatim>\<open>create_index\<close> calls received, the same indexes.\<close>

definition same_setup :: "'u MongoDBUserDatabase \<Rightarrow> 'u MongoDBUserDatabase \<Rightarrow> bool" where
  "same_setup s' s =
     (initialized s' = initialized s \<and>
      create_index_calls (collection s') = create_index_calls (collection s) \<and>
      indexes (collection s') = indexes (collection s))"

text \<open>A user the model serializes as a user document: \<^verbatim>\<open>dict()\<close> carries the user's
  \<^verbatim>\<open>id\<close>, a string \<^verbatim>\<open>email\<close>, and no \<^verbatim>\<open>_id\<close> of its own.\<close>

definition valid_user :: "'u UD \<Rightarrow> 'u \<Rightarrow> bool" where
  "valid_user model u =
     (map_of (dict model u) ''id'' = Some (BUuid (id_of model u)) \<and>
      (case map_of (dict model u) ''email'' of Some (BString _) \<Rightarrow> True | _ \<Rightarrow> False) \<and>
      map_of (dict model u) ''_id'' = None)"

text \<open>An operation whose user, if it writes one, is valid.\<close>

definition valid_operation :: "'u UD \<Rightarrow> 'u operation \<Rightarrow> bool" where
  "valid_operation model op =
     (case op of Create u \<Rightarrow> valid_user model u | Update u \<Rightarrow> valid_user model u | _ \<Rightarrow> True)"

text \<open>A document holds the OAuth pair \<open>(p, a)\<close> when one element of its
  \<^verbatim>\<open>oauth_accounts\<close> array has both the name \<open>p\<close> and the account id \<open>a\<close>.\<close>

definition has_oauth_pair :: "string \<Rightarrow> string \<Rightarrow> document \<Rightarrow> bool" where
  "has_oauth_pair p a d =
     (case map_of d ''oauth_accounts'' of
        Some (BArray xs) \<Rightarrow>
          list_ex (\<lambda>e. case e of
                         BDoc f \<Rightarrow> map_of f ''oauth_name'' = Some (BString p) \<and>
                                   map_of f ''account_id'' = Some (BString a)
                       | _ \<Rightarrow> False) xs
      | _ \<Rightarrow> False)"


section \<open>A user model to run the store on\<close>

text \<open>A user model with OAuth accounts, as the framework's own: the fields the adapter
  reads and some it does not.\<close>

record oauth_account =
  oauth_name :: string
  access_token :: string
  account_id :: string

record user_db =
  uid :: uuid
  email :: string
  hashed_password :: string
  is_active :: bool
  oauth_accounts :: "oauth_account list"

definition oauth_account_dict :: "oauth_account \<Rightarrow> bson" where
  "oauth_account_dict a =
     BDoc [(''oauth_name'', BString (oauth_name a)),
           (''access_token'', BString (access_token a)),
           (''account_id'', BString (account_id a))]"

definition user_db_dict :: "user_db \<Rightarrow> document" where
  "user_db_dict u =
     [(''id'', BUuid (uid u)),
      (''email'', BString (email u)),
      (''hashed_password'', BString (hashed_password u)),
      (''is_active'', BBool (is_active u)),
      (''oauth_accounts'', BArray (map oauth_account_dict (oauth_accounts u)))]"

definition str_field :: "document \<Rightarrow> string \<Rightarrow> string option" where
  "str_field d f = (case map_of d f of Some (BString s) \<Rightarrow> Some s | _ \<Rightarrow> None)"

definition oauth_account_of :: "bson \<Rightarrow> oauth_account option" where
  "oauth_account_of v =
     (case v of
        BDoc d \<Rightarrow>
          (case (str_field d ''oauth_name'', str_field d ''access_token'',
                 str_field d ''account_id'') of
             (Some n, Some t, Some a) \<Rightarrow>
               Some \<lparr>oauth_name = n, access_token = t, account_id = a\<rparr>
           | _ \<Rightarrow> None)
      | _ \<Rightarrow> None)"

fun all_some :: "'a option list \<Rightarrow> 'a list option" where
  "all_some [] = Some []"
| "all_some (x # xs) =
     (case x of
        None \<Rightarrow> None
      | Some y \<Rightarrow> (case all_some xs of None \<Rightarrow> None | Some ys \<Rightarrow> Some (y # ys)))"

definition user_db_of :: "document \<Rightarrow> error + user_db" where
  "user_db_of d =
     (case (map_of d ''id'', str_field d ''email'', str_field d ''hashed_password'',
            map_of d ''is_active'', map_of d ''oauth_accounts'') of
        (Some (BUuid i), Some e, Some h, Some (BBool a), Some (BArray xs)) \<Rightarrow>
          (case all_some (map oauth_account_of xs) of
             Some accounts \<Rightarrow>
               Inr \<lparr>uid = i, email = e, hashed_password = h, is_active = a,
                    oauth_accounts = accounts\<rparr>
           | None \<Rightarrow> Inl ValidationError)
      | _ \<Rightarrow> Inl ValidationError)"

definition user_db_model_class :: "user_db UD" where
  "user_db_model_class = \<lparr>construct = user_db_of, dict = user_db_dict, id_of = uid\<rparr>"

definition empty_collection :: collection where
  "empty_collection = \<lparr>docs = [], indexes = [], create_index_calls = [], next_oid = 0\<rparr>"

definition fresh_store :: "user_db MongoDBUserDatabase" where
  "fresh_store = init user_db_model_class empty_collection None"

definition alice :: user_db where
  "alice =
     \<lparr>uid = 1, email = ''A@B.com'', hashed_password = ''x'', is_active = True,
      oauth_accounts =
        [\<lparr>oauth_name = ''google'', access_token = ''t1'', account_id = ''1''\<rparr>,
         \<lparr>oauth_name = ''github'', access_token = ''t2'', account_id = ''2''\<rparr>]\<rparr>"

definition bob :: user_db where
  "bob =
     \<lparr>uid = 2, email = ''a@b.com'', hashed_password = ''y'', is_active = True,
      oauth_accounts =
        [\<lparr>oauth_name = ''google'', access_token = ''t3'', account_id = ''1''\<rparr>]\<rparr>"

text \<open>Two stores to run examples on: one holding Alice, one holding Alice and then Bob.
  Bob's email differs from Alice's in letter case only, and Bob holds an OAuth account that
  Alice holds too.\<close>

definition alice_store :: "user_db MongoDBUserDatabase" where
  "alice_store = snd (create alice fresh_store)"

definition alice_bob_store :: "user_db MongoDBUserDatabase" where
  "alice_bob_store = snd (create bob alice_store)"

definition alice_document :: document where
  "alice_document =
     [(''_id'', BObjectId 0), (''id'', BUuid 1), (''email'', BString ''A@B.com''),
      (''hashed_password'', BString ''x''), (''is_active'', BBool True),
      (''oauth_accounts'',
       BArray [BDoc [(''oauth_name'', BString ''google''), (''access_token'', BString ''t1''),
                     (''account_id'', BString ''1'')],
               BDoc [(''oauth_name'', BString ''github''), (''access_token'', BString ''t2''),
                     (''account_id'', BString ''2'')]])]"

definition bob_document :: document where
  "bob_document =
     [(''_id'', BObjectId 1), (''id'', BUuid 2), (''email'', BString ''a@b.com''),
      (''hashed_password'', BString ''y''), (''is_active'', BBool True),
      (''oauth_accounts'',
       BArray [BDoc [(''oauth_name'', BString ''google''), (''access_token'', BString ''t3''),
                     (''account_id'', BString ''1'')]])]"

text \<open>Alice with Bob's email, to update Alice's document with.\<close>

definition alice_renamed :: user_db where
  "alice_renamed = alice\<lparr>email := ''a@b.com''\<rparr>"

text \<open>Alice with a new password and no OAuth account, and Carol, whom no store holds.\<close>

definition alice_changed :: user_db where
  "alice_changed = alice\<lparr>hashed_password := ''z'', oauth_accounts := []\<rparr>"

definition carol :: user_db where
  "carol =
     \<lparr>uid = 3, email = ''c@d.org'', hashed_password = ''w'', is_active = False,
      oauth_accounts = []\<rparr>"

text \<open>A store built on a collection that was filled behind the adapter's back: two
  documents share an email, and there is no index yet.\<close>

definition twin_document :: document where
  "twin_document =
     [(''_id'', BObjectId 1), (''id'', BUuid 2), (''email'', BString ''A@B.com''),
      (''hashed_password'', BString ''y''), (''is_active'', BBool True),
      (''oauth_accounts'', BArray [])]"

definition twin_store :: "user_db MongoDBUserDatabase" where
  "twin_store =
     init user_db_model_class
       \<lparr>docs = [alice_document, twin_document], indexes = [], create_index_calls = [],
        next_oid = 2\<rparr>
       None"


section \<open>Properties of the storage operations\<close>

subsection \<open>Lists\<close>

lemma find_append_new:
  "find P (xs @ [y]) = (case find P xs of Some x \<Rightarrow> Some x | None \<Rightarrow> if P y then Some y else None)"
  by (induction xs) simp_all

lemma find_absent: "\<not> list_ex P xs \<Longrightarrow> find P xs = None"
  by (induction xs) simp_all

lemma find_present: "list_ex P xs \<Longrightarrow> \<exists>x. find P xs = Some x \<and> P x \<and> x \<in> set xs"
  by (induction xs) auto

lemma delete_first_absent: "\<not> list_ex P xs \<Longrightarrow> delete_first P xs = xs"
  by (induction xs) simp_all

lemma set_delete_first: "set (delete_first P xs) \<subseteq> set xs"
  by (induction xs) auto

lemma set_delete_first_all: "list_all Q xs \<Longrightarrow> list_all Q (delete_first P xs)"
  using set_delete_first [of P xs] by (auto simp add: list_all_iff)

lemma distinct_map_delete_first:
  "distinct (map f xs) \<Longrightarrow> distinct (map f (delete_first P xs))"
proof (induction xs)
  case Nil
  then show ?case by simp
next
  case (Cons x xs)
  then show ?case using set_delete_first [of P xs] by auto
qed

text \<open>When the predicate selects by a key and the keys are distinct, deleting the first
  match leaves no match.\<close>

lemma delete_first_keyed:
  assumes "distinct (map f xs)" and "\<forall>x \<in> set xs. P x = (f x = k)"
  shows "\<not> list_ex P (delete_first P xs)"
  using assms
proof (induction xs)
  case Nil
  then show ?case by simp
next
  case (Cons x xs)
  show ?case
  proof (cases "P x")
    case True
    then have "f x = k" using Cons.prems by simp
    then have "\<forall>y \<in> set xs. f y \<noteq> k" using Cons.prems(1) by (auto simp: image_iff)
    then have "\<forall>y \<in> set xs. \<not> P y" using Cons.prems by simp
    then show ?thesis using True by (simp add: list_ex_iff)
  next
    case False
    then show ?thesis using Cons by simp
  qed
qed

lemma find_replace_first:
  "list_ex P xs \<Longrightarrow> P y \<Longrightarrow> find P (replace_first P y xs) = Some y"
  by (induction xs) auto

lemma set_replace_first:
  "set (replace_first P y xs) \<subseteq> insert y (set xs)"
  by (induction xs) auto

lemma distinct_map_replace_first:
  assumes "distinct (map f xs)" and "f y \<notin> f ` set (delete_first P xs)"
  shows "distinct (map f (replace_first P y xs))"
  using assms
proof (induction xs)
  case Nil
  then show ?case by simp
next
  case (Cons x xs)
  show ?case
  proof (cases "P x")
    case True
    then show ?thesis using Cons.prems by simp
  next
    case False
    have "f x \<notin> f ` set (replace_first P y xs)"
    proof
      assume "f x \<in> f ` set (replace_first P y xs)"
      then obtain z where z: "z \<in> set (replace_first P y xs)" "f z = f x" by auto
      then have "z = y \<or> z \<in> set xs" using set_replace_first [of P y xs] by auto
      then show False
      proof
        assume "z = y"
        then show False using Cons.prems(2) False z by simp
      next
        assume "z \<in> set xs"
        then show False using Cons.prems(1) z by (auto simp: image_iff)
      qed
    qed
    then show ?thesis using Cons False by simp
  qed
qed

lemma filter_twice:
  assumes "list_ex P xs" and "P y"
  shows "2 \<le> length (filter P (xs @ [y]))"
proof -
  obtain x where "x \<in> set xs" "P x" using assms(1) by (auto simp add: list_ex_iff)
  then have "filter P xs \<noteq> []" by (auto simp add: filter_empty_conv)
  then have "1 \<le> length (filter P xs)" by (cases "filter P xs") simp_all
  then show ?thesis using assms(2) by simp
qed

subsection \<open>Index creation and lazy initialization\<close>

lemma index_key_None: "index_key None f d = (case map_of d f of None \<Rightarrow> BNull | Some v \<Rightarrow> v)"
  by (simp add: index_key_def collation_key_def split: option.splits bson.splits)

lemma create_index_frame:
  assumes "create_index f u co c = (r, c')"
  shows "docs c' = docs c" and "next_oid c' = next_oid c"
    and "create_index_calls c' = create_index_calls c @ [(f, u, co)]"
  using assms by (auto simp add: create_index_def Let_def split: if_splits)

lemma create_index_indexes:
  assumes "create_index f u co c = (Inr n, c')"
  shows "set (indexes c') = insert \<lparr>key = f, unique = u, collation = co\<rparr> (set (indexes c))"
  using assms by (auto simp add: create_index_def Let_def split: if_splits)

lemma initialize_done: "initialized s \<Longrightarrow> initialize s = (Inr (), s)"
  by (simp add: initialize_def)

lemma initialized_init: "initialized s \<Longrightarrow> fst (initialize s) = Inr ()"
  by (simp add: initialize_def)

lemma initialize_cases [case_names already id_failed email_failed both]:
  obtains "initialized s" "initialize s = (Inr (), s)"
  | e c1 where "\<not> initialized s" "create_index ''id'' True None (collection s) = (Inl e, c1)"
      "initialize s = (Inl e, s\<lparr>collection := c1\<rparr>)"
  | n1 c1 e c2 where "\<not> initialized s"
      "create_index ''id'' True None (collection s) = (Inr n1, c1)"
      "create_index ''email'' True None c1 = (Inl e, c2)"
      "initialize s = (Inl e, s\<lparr>collection := c2\<rparr>)"
  | n1 c1 n2 c2 where "\<not> initialized s"
      "create_index ''id'' True None (collection s) = (Inr n1, c1)"
      "create_index ''email'' True None c1 = (Inr n2, c2)"
      "initialize s = (Inr (), s\<lparr>collection := c2, initialized := True\<rparr>)"
proof (cases "initialized s")
  case True
  then show ?thesis using that(1) by (simp add: initialize_def)
next
  case False
  obtain r1 c1 where r1: "create_index ''id'' True None (collection s) = (r1, c1)"
    by (cases "create_index ''id'' True None (collection s)")
  obtain r2 c2 where r2: "create_index ''email'' True None c1 = (r2, c2)"
    by (cases "create_index ''email'' True None c1")
  show ?thesis
  proof (cases r1)
    case (Inl e)
    then show ?thesis using that(2) [of e c1] False r1 by (simp add: initialize_def)
  next
    case (Inr n1)
    note first = this
    show ?thesis
    proof (cases r2)
      case (Inl e)
      then show ?thesis using that(3) [of n1 c1 e c2] False r1 r2 first
        by (simp add: initialize_def)
    next
      case (Inr n2)
      then show ?thesis using that(4) [of n1 c1 n2 c2] False r1 r2 first
        by (simp add: initialize_def)
    qed
  qed
qed

lemma initialize_frame:
  "docs (collection (snd (initialize s))) = docs (collection s)"
  "next_oid (collection (snd (initialize s))) = next_oid (collection s)"
  "user_db_model (snd (initialize s)) = user_db_model s"
  "email_collation (snd (initialize s)) = email_collation s"
  by (cases s rule: initialize_cases; simp add: create_index_frame)+

lemma initialize_flag:
  "initialized (snd (initialize s)) = (initialized s \<or> fst (initialize s) = Inr ())"
  by (cases s rule: initialize_cases) simp_all

lemma initialize_succeeded:
  assumes "fst (initialize s) = Inr ()"
  obtains s1 where "initialize s = (Inr (), s1)" "initialized s1"
    "docs (collection s1) = docs (collection s)"
    "next_oid (collection s1) = next_oid (collection s)"
    "user_db_model s1 = user_db_model s" "email_collation s1 = email_collation s"
proof -
  obtain s1 where s1: "initialize s = (Inr (), s1)"
    using assms by (cases "initialize s") simp
  then have "snd (initialize s) = s1" by simp
  then show ?thesis
    using that [of s1] s1 initialize_frame [of s] initialize_flag [of s] assms by simp
qed

lemma initialize_failed:
  assumes "fst (initialize s) = Inl e"
  shows "initialize s = (Inl e, snd (initialize s))"
  using assms by (cases "initialize s") simp

lemma initialize_both_calls:
  assumes "\<not> initialized s" and "fst (initialize s) = Inr ()"
  shows "create_index_calls (collection (snd (initialize s))) =
           create_index_calls (collection s) @ [(''id'', True, None), (''email'', True, None)]"
    and "set (indexes (collection (snd (initialize s)))) =
           {id_index, email_index} \<union> set (indexes (collection s))"
    and "\<exists>n1 c1 n2. create_index ''id'' True None (collection s) = (Inr n1, c1) \<and>
           create_index ''email'' True None c1 = (Inr n2, collection (snd (initialize s)))"
  using assms
  by (cases s rule: initialize_cases;
      auto simp add: create_index_frame create_index_indexes id_index_def email_index_def)+

lemma initialize_attempt:
  assumes "\<not> initialized s"
  shows "\<exists>rest. create_index_calls (collection (snd (initialize s))) =
           create_index_calls (collection s) @ (''id'', True, None) # rest"
  using assms
  by (cases s rule: initialize_cases) (auto simp add: create_index_frame)

subsection \<open>Every operation starts with the initialization\<close>

lemma insert_one_frame:
  assumes "insert_one d c = (r, c')"
  shows "create_index_calls c' = create_index_calls c" and "indexes c' = indexes c"
  using assms by (auto simp add: insert_one_def Let_def split: if_splits)

lemma replace_one_frame:
  assumes "replace_one flt d c = (r, c')"
  shows "create_index_calls c' = create_index_calls c" and "indexes c' = indexes c"
  using assms by (auto simp add: replace_one_def Let_def split: option.splits if_splits)

lemma delete_one_frame:
  assumes "delete_one flt c = (r, c')"
  shows "create_index_calls c' = create_index_calls c" and "indexes c' = indexes c"
  using assms by (auto simp add: delete_one_def)

lemma get_setup: "snd (get i s) = snd (initialize s)"
  by (simp add: get_def split: prod.splits sum.splits)

lemma get_by_email_setup: "snd (get_by_email e s) = snd (initialize s)"
  by (simp add: get_by_email_def split: prod.splits sum.splits)

lemma get_by_oauth_account_setup: "snd (get_by_oauth_account p a s) = snd (initialize s)"
  by (simp add: get_by_oauth_account_def split: prod.splits sum.splits)

lemma create_setup: "same_setup (snd (create u s)) (snd (initialize s))"
  by (auto simp add: create_def same_setup_def insert_one_frame split: prod.splits sum.splits)

lemma update_setup: "same_setup (snd (update u s)) (snd (initialize s))"
  by (auto simp add: update_def same_setup_def replace_one_frame split: prod.splits sum.splits)

lemma delete_setup: "same_setup (snd (delete u s)) (snd (initialize s))"
  by (auto simp add: delete_def same_setup_def delete_one_frame split: prod.splits sum.splits)

lemma snd_returning: "snd (returning f r) = snd r"
  by (simp add: returning_def split: prod.splits sum.splits)

lemma run_setup: "same_setup (snd (run op s)) (snd (initialize s))"
  by (cases op)
    (simp_all add: snd_returning get_setup get_by_email_setup get_by_oauth_account_setup
      create_setup update_setup delete_setup, simp_all add: same_setup_def)

lemma run_failed:
  assumes "fst (initialize s) = Inl e"
  shows "run op s = (Inl e, snd (initialize s))"
proof -
  have init: "initialize s = (Inl e, snd (initialize s))"
    using assms by (rule initialize_failed)
  show ?thesis
    by (cases op)
      (simp_all add: returning_def get_def get_by_email_def get_by_oauth_account_def create_def
        update_def delete_def,
       (subst init, simp)+)
qed



lemma run_model: "user_db_model (snd (run op s)) = user_db_model s"
proof -
  have "user_db_model (snd (initialize s)) = user_db_model s"
    by (rule initialize_frame)
  then show ?thesis
    by (cases op)
      (auto simp add: snd_returning get_setup get_by_email_setup get_by_oauth_account_setup
        create_def update_def delete_def split: prod.splits sum.splits)
qed

subsection \<open>Lookups after the initialization\<close>

lemma to_user_absent: "to_user model None = Inr None"
  by (simp add: to_user_def)

lemma to_user_stored:
  "construct model ((k, v) # d) = Inr u \<Longrightarrow> to_user model (Some ((k, v) # d)) = Inr (Some u)"
  by (simp add: to_user_def)


lemma get_after_init:
  assumes "fst (initialize s) = Inr ()"
  shows "fst (get i s) =
    to_user (user_db_model s) (find (matches None [(''id'', BUuid i)]) (docs (collection s)))"
  using assms by (rule initialize_succeeded) (simp add: get_def find_one_def)

lemma get_by_email_after_init:
  assumes "fst (initialize s) = Inr ()"
  shows "fst (get_by_email e s) =
    to_user (user_db_model s)
      (find (matches (Some (email_collation s)) [(''email'', BString e)]) (docs (collection s)))"
  using assms by (rule initialize_succeeded) (simp add: get_by_email_def find_one_def)

lemma get_by_oauth_account_after_init:
  assumes "fst (initialize s) = Inr ()"
  shows "fst (get_by_oauth_account p a s) =
    to_user (user_db_model s)
      (find (matches None [(''oauth_accounts.oauth_name'', BString p),
                           (''oauth_accounts.account_id'', BString a)])
         (docs (collection s)))"
  using assms by (rule initialize_succeeded) (simp add: get_by_oauth_account_def find_one_def)

subsection \<open>Matching user documents\<close>

lemma user_document_fields:
  assumes "user_document n d"
  obtains x e k where "map_of d ''id'' = Some (BUuid x)" "map_of d ''email'' = Some (BString e)"
    "map_of d ''_id'' = Some (BObjectId k)" "k < n"
  using assms by (auto simp add: user_document_def split: option.splits bson.splits)

lemma user_document_mono: "user_document n d \<Longrightarrow> n \<le> m \<Longrightarrow> user_document m d"
  by (auto simp add: user_document_def split: option.splits bson.splits)

lemma matches_id:
  "matches None [(''id'', BUuid i)] d =
     (case map_of d ''id'' of None \<Rightarrow> False | Some v \<Rightarrow> leaf_match None v (BUuid i))"
  by (simp add: matches_def split: option.splits)

lemma matches_id_user:
  assumes "user_document n d"
  shows "matches None [(''id'', BUuid i)] d = (index_key None ''id'' d = BUuid i)"
proof -
  obtain x where "map_of d ''id'' = Some (BUuid x)"
    using assms by (rule user_document_fields)
  then show ?thesis
    by (auto simp add: matches_id index_key_None leaf_match_def value_eq_def)
qed



text \<open>What the filter of the OAuth lookup asks of a document: some element of
  \<^verbatim>\<open>oauth_accounts\<close> has the name, and some element has the account id.\<close>

lemma matches_oauth_filter:
  assumes "map_of d ''oauth_accounts'' = Some (BArray xs)"
  shows "matches None [(''oauth_accounts.oauth_name'', BString p),
                       (''oauth_accounts.account_id'', BString a)] d =
    (list_ex (\<lambda>e. case e of BDoc f \<Rightarrow> match_path None [''oauth_name''] (BString p) f
                           | _ \<Rightarrow> False) xs \<and>
     list_ex (\<lambda>e. case e of BDoc f \<Rightarrow> match_path None [''account_id''] (BString a) f
                           | _ \<Rightarrow> False) xs)"
  using assms by (simp add: matches_def)

lemma find_id_new:
  assumes "list_all (user_document n) ds" and "\<not> key_taken None ''id'' d ds"
    and "map_of d ''id'' = Some (BUuid i)"
  shows "find (matches None [(''id'', BUuid i)]) (ds @ [(''_id'', v) # d]) = Some ((''_id'', v) # d)"
proof -
  have "\<not> list_ex (matches None [(''id'', BUuid i)]) ds"
  proof
    assume "list_ex (matches None [(''id'', BUuid i)]) ds"
    then obtain d' where d': "d' \<in> set ds" "matches None [(''id'', BUuid i)] d'"
      by (auto simp add: list_ex_iff)
    then have "user_document n d'" using assms(1) by (simp add: list_all_iff)
    then have "index_key None ''id'' d' = BUuid i" using d'(2) by (simp add: matches_id_user)
    then have "index_key None ''id'' d' = index_key None ''id'' d"
      using assms(3) by (simp add: index_key_None)
    then show False using assms(2) d'(1) unfolding key_taken_def list_ex_iff by blast
  qed
  then have "find (matches None [(''id'', BUuid i)]) ds = None" by (rule find_absent)
  moreover have "matches None [(''id'', BUuid i)] ((''_id'', v) # d)"
    using assms(3) by (simp add: matches_id leaf_match_def value_eq_def)
  ultimately show ?thesis by (simp add: find_append_new)
qed

subsection \<open>Stored documents\<close>


lemma map_of_stored_form: "f \<noteq> ''_id'' \<Longrightarrow> map_of (stored_form n d) f = map_of d f"
  by (simp add: stored_form_def)

lemma index_key_stored_form:
  "f \<noteq> ''_id'' \<Longrightarrow> index_key co f (stored_form n d) = index_key co f d"
  by (simp add: stored_form_def index_key_def)

lemma key_taken_stored_form:
  "f \<noteq> ''_id'' \<Longrightarrow> key_taken co f (stored_form n d) ds = key_taken co f d ds"
  by (simp add: key_taken_def index_key_stored_form)

lemma key_taken_iff:
  "key_taken co f d ds = (index_key co f d \<in> set (map (index_key co f) ds))"
  by (auto simp add: key_taken_def list_ex_iff image_iff) metis

lemma has_oauth_pair_stored_form:
  "has_oauth_pair p a (stored_form n d) = has_oauth_pair p a d"
  by (simp add: has_oauth_pair_def map_of_stored_form)

lemma valid_user_stored:
  assumes "valid_user model u"
  shows "stored_form n (dict model u) = (''_id'', BObjectId n) # dict model u"
    and "user_document (Suc n) (stored_form n (dict model u))"
  using assms
  by (auto simp add: valid_user_def stored_form_def user_document_def split: option.splits bson.splits)

lemma oid_not_taken:
  "list_all (user_document n) ds \<Longrightarrow> \<not> key_taken None ''_id'' ((''_id'', BObjectId n) # d) ds"
proof
  assume all: "list_all (user_document n) ds"
    and "key_taken None ''_id'' ((''_id'', BObjectId n) # d) ds"
  then obtain d' where d': "d' \<in> set ds" "index_key None ''_id'' d' = BObjectId n"
    by (auto simp add: key_taken_def list_ex_iff index_key_None)
  then have "user_document n d'" using all by (simp add: list_all_iff)
  then obtain k where "map_of d' ''_id'' = Some (BObjectId k)" "k < n"
    by (rule user_document_fields)
  then show False using d'(2) by (simp add: index_key_None)
qed


subsection \<open>Well-formed stores and the initialization\<close>

lemma collection_inv_index:
  "collection_inv c \<Longrightarrow> ix \<in> set (indexes c) \<Longrightarrow> ix = id_index \<or> ix = email_index"
  by (auto simp add: collection_inv_def list_all_iff)

lemma create_index_own:
  assumes "collection_inv c" and "f = ''id'' \<or> f = ''email''"
  obtains n c' where "create_index f True None c = (Inr n, c')" "collection_inv c'"
    "set (indexes c') = insert \<lparr>key = f, unique = True, collation = None\<rparr> (set (indexes c))"
proof -
  let ?ix = "\<lparr>key = f, unique = True, collation = None\<rparr>"
  have own: "?ix = id_index \<or> ?ix = email_index"
    using assms(2) by (auto simp add: id_index_def email_index_def)
  have dist: "distinct (map (index_key None f) (docs c))"
    using assms by (auto simp add: collection_inv_def)
  show ?thesis
  proof (cases "?ix \<in> set (indexes c)")
    case True
    then have "create_index f True None c =
        (Inr (f @ ''_1''), c\<lparr>create_index_calls := create_index_calls c @ [(f, True, None)]\<rparr>)"
      by (simp add: create_index_def Let_def)
    moreover have "collection_inv (c\<lparr>create_index_calls := create_index_calls c @ [(f, True, None)]\<rparr>)"
      using assms(1) by (simp add: collection_inv_def)
    ultimately show ?thesis using that True by (simp add: insert_absorb)
  next
    case False
    have "\<not> list_ex (\<lambda>ix'. key ix' = f) (indexes c)"
    proof
      assume "list_ex (\<lambda>ix'. key ix' = f) (indexes c)"
      then obtain ix' where ix': "ix' \<in> set (indexes c)" "key ix' = f"
        by (auto simp add: list_ex_iff)
      then have "ix' = id_index \<or> ix' = email_index"
        using assms(1) collection_inv_index by blast
      then have "ix' = ?ix"
        using ix'(2) assms(2) by (auto simp add: id_index_def email_index_def)
      then show False using False ix'(1) by simp
    qed
    then have "create_index f True None c =
        (Inr (f @ ''_1''),
         c\<lparr>create_index_calls := create_index_calls c @ [(f, True, None)],
           indexes := indexes c @ [?ix]\<rparr>)"
      using False dist by (simp add: create_index_def Let_def)
    moreover have "collection_inv
        (c\<lparr>create_index_calls := create_index_calls c @ [(f, True, None)],
           indexes := indexes c @ [?ix]\<rparr>)"
      using assms(1) own by (simp add: collection_inv_def)
    ultimately show ?thesis using that by simp
  qed
qed

lemma initialize_inv:
  assumes "store_inv s"
  obtains s1 where "initialize s = (Inr (), s1)" "store_inv s1" "initialized s1"
proof (cases "initialized s")
  case True
  then show ?thesis using that assms by (simp add: initialize_def)
next
  case False
  have inv: "collection_inv (collection s)" using assms by (simp add: store_inv_def)
  obtain n1 c1 where c1: "create_index ''id'' True None (collection s) = (Inr n1, c1)"
    "collection_inv c1" "set (indexes c1) = insert id_index (set (indexes (collection s)))"
    using create_index_own [OF inv, of "''id''"] by (auto simp add: id_index_def)
  obtain n2 c2 where c2: "create_index ''email'' True None c1 = (Inr n2, c2)"
    "collection_inv c2" "set (indexes c2) = insert email_index (set (indexes c1))"
    using create_index_own [OF c1(2), of "''email''"] by (auto simp add: email_index_def)
  have "initialize s = (Inr (), s\<lparr>collection := c2, initialized := True\<rparr>)"
    using False c1(1) c2(1) by (simp add: initialize_def)
  moreover have "store_inv (s\<lparr>collection := c2, initialized := True\<rparr>)"
    using c1 c2 by (simp add: store_inv_def)
  ultimately show ?thesis using that by simp
qed

lemma initialize_well_formed:
  assumes "store_inv s"
  obtains s1 where "initialize s = (Inr (), s1)" "store_inv s1" "initialized s1"
    "docs (collection s1) = docs (collection s)"
    "next_oid (collection s1) = next_oid (collection s)"
    "user_db_model s1 = user_db_model s" "email_collation s1 = email_collation s"
proof -
  obtain s1 where s1: "initialize s = (Inr (), s1)" "store_inv s1" "initialized s1"
    using assms by (rule initialize_inv)
  then have "snd (initialize s) = s1" by simp
  then show ?thesis using that [of s1] s1 initialize_frame [of s] by simp
qed

lemma store_inv_init: "store_inv s \<Longrightarrow> fst (initialize s) = Inr ()"
  by (erule initialize_inv) simp

lemma initialize_keeps_inv: "store_inv s \<Longrightarrow> store_inv (snd (initialize s))"
  by (erule initialize_inv) simp

lemma duplicate_key_own:
  assumes "collection_inv c" and "id_index \<in> set (indexes c)" and "email_index \<in> set (indexes c)"
  shows "duplicate_key (indexes c) d ds =
    (key_taken None ''id'' d ds \<or> key_taken None ''email'' d ds)"
proof
  assume "duplicate_key (indexes c) d ds"
  then obtain ix where ix: "ix \<in> set (indexes c)" "key_taken (collation ix) (key ix) d ds"
    by (auto simp add: duplicate_key_def list_ex_iff)
  then have "ix = id_index \<or> ix = email_index"
    using assms(1) collection_inv_index by blast
  then show "key_taken None ''id'' d ds \<or> key_taken None ''email'' d ds"
    using ix(2) by (auto simp add: id_index_def email_index_def)
next
  assume "key_taken None ''id'' d ds \<or> key_taken None ''email'' d ds"
  then show "duplicate_key (indexes c) d ds"
  proof
    assume "key_taken None ''id'' d ds"
    then have "unique id_index \<and> key_taken (collation id_index) (key id_index) d ds"
      by (simp add: id_index_def)
    then show ?thesis using assms(2) unfolding duplicate_key_def list_ex_iff by blast
  next
    assume "key_taken None ''email'' d ds"
    then have "unique email_index \<and> key_taken (collation email_index) (key email_index) d ds"
      by (simp add: email_index_def)
    then show ?thesis using assms(3) unfolding duplicate_key_def list_ex_iff by blast
  qed
qed

lemma no_id_match_left:
  assumes "collection_inv c"
  shows "\<not> list_ex (matches None [(''id'', BUuid i)])
            (delete_first (matches None [(''id'', BUuid i)]) (docs c))"
proof (rule delete_first_keyed [where f = "index_key None ''id''" and k = "BUuid i"])
  show "distinct (map (index_key None ''id'') (docs c))"
    using assms by (simp add: collection_inv_def)
  show "\<forall>d \<in> set (docs c). matches None [(''id'', BUuid i)] d = (index_key None ''id'' d = BUuid i)"
    using assms by (auto simp add: collection_inv_def list_all_iff matches_id_user)
qed

subsection \<open>Creating\<close>

lemma create_after_init:
  assumes "initialize s = (Inr (), s1)"
  shows "create u s =
    (let c = collection s1; d' = stored_form (next_oid c) (dict (user_db_model s1) u);
         c' = c\<lparr>next_oid := Suc (next_oid c)\<rparr>
     in if key_taken None ''_id'' d' (docs c) \<or> duplicate_key (indexes c) d' (docs c)
        then (Inl DuplicateKeyError, s1\<lparr>collection := c'\<rparr>)
        else (Inr u, s1\<lparr>collection := c'\<lparr>docs := docs c @ [d']\<rparr>\<rparr>))"
  using assms by (simp add: create_def insert_one_def Let_def)

lemma create_succeeded:
  assumes "fst (create u s) = Inr u'"
  shows "u' = u \<and> initialized (snd (create u s)) \<and>
    docs (collection (snd (create u s))) =
      docs (collection s) @ [stored_form (next_oid (collection s)) (dict (user_db_model s) u)] \<and>
    user_db_model (snd (create u s)) = user_db_model s \<and>
    email_collation (snd (create u s)) = email_collation s"
proof (cases "fst (initialize s)")
  case (Inl e)
  then have "fst (create u s) = Inl e"
    by (cases "initialize s") (simp add: create_def)
  then show ?thesis using assms by simp
next
  case (Inr x)
  then have "fst (initialize s) = Inr ()" by simp
  then obtain s1 where s1: "initialize s = (Inr (), s1)" "initialized s1"
    "docs (collection s1) = docs (collection s)"
    "next_oid (collection s1) = next_oid (collection s)"
    "user_db_model s1 = user_db_model s" "email_collation s1 = email_collation s"
    by (rule initialize_succeeded)
  show ?thesis
    using assms s1(2-) by (simp add: create_after_init [OF s1(1)] Let_def split: if_splits)
qed

lemma create_well_formed:
  fixes s :: "'u MongoDBUserDatabase" and u :: 'u
  assumes "store_inv s"
  defines "d \<equiv> dict (user_db_model s) u"
  defines "taken \<equiv> key_taken None ''id'' d (docs (collection s)) \<or>
                     key_taken None ''email'' d (docs (collection s))"
  shows "taken \<Longrightarrow> fst (create u s) = Inl DuplicateKeyError"
    and "taken \<Longrightarrow> docs (collection (snd (create u s))) = docs (collection s)"
    and "taken \<Longrightarrow> store_inv (snd (create u s))"
    and "\<not> taken \<Longrightarrow> valid_user (user_db_model s) u \<Longrightarrow> fst (create u s) = Inr u"
    and "\<not> taken \<Longrightarrow> valid_user (user_db_model s) u \<Longrightarrow> store_inv (snd (create u s))"
proof -
  obtain s1 where s1: "initialize s = (Inr (), s1)" "store_inv s1" "initialized s1"
    "docs (collection s1) = docs (collection s)"
    "next_oid (collection s1) = next_oid (collection s)"
    "user_db_model s1 = user_db_model s" "email_collation s1 = email_collation s"
    using assms(1) by (rule initialize_well_formed)
  let ?c = "collection s1"
  let ?n = "next_oid (collection s)"
  let ?d' = "stored_form ?n d"
  have inv: "collection_inv ?c" and ixs: "id_index \<in> set (indexes ?c)" "email_index \<in> set (indexes ?c)"
    using s1(2,3) by (simp_all add: store_inv_def)
  have dup: "duplicate_key (indexes ?c) ?d' (docs ?c) = taken"
    unfolding taken_def duplicate_key_own [OF inv ixs] s1(4)
    by (simp add: key_taken_stored_form)
  have bump: "collection_inv (?c\<lparr>next_oid := Suc ?n\<rparr>)"
    using inv s1(5) unfolding collection_inv_def list_all_iff
    by (auto intro: user_document_mono)
  {
    assume taken
    then have res: "create u s = (Inl DuplicateKeyError, s1\<lparr>collection := ?c\<lparr>next_oid := Suc ?n\<rparr>\<rparr>)"
      using dup s1(5,6) by (simp add: create_after_init [OF s1(1)] Let_def d_def)
    show "fst (create u s) = Inl DuplicateKeyError" using res by simp
    show "docs (collection (snd (create u s))) = docs (collection s)" using res s1(4) by simp
    show "store_inv (snd (create u s))" using res bump s1(2,3) by (simp add: store_inv_def)
  }
  {
    assume fresh: "\<not> taken" and valid: "valid_user (user_db_model s) u"
    have stored: "?d' = (''_id'', BObjectId ?n) # d" "user_document (Suc ?n) ?d'"
      using valid_user_stored [OF valid] by (simp_all add: d_def)
    have "list_all (user_document ?n) (docs ?c)"
      using inv s1(5) by (simp add: collection_inv_def)
    then have oid: "\<not> key_taken None ''_id'' ?d' (docs ?c)"
      unfolding stored(1) by (rule oid_not_taken)
    have res: "create u s =
        (Inr u, s1\<lparr>collection := ?c\<lparr>next_oid := Suc ?n, docs := docs ?c @ [?d']\<rparr>\<rparr>)"
      using dup oid fresh s1(5,6) by (simp add: create_after_init [OF s1(1)] Let_def d_def)
    show "fst (create u s) = Inr u" using res by simp
    have new_id: "index_key None ''id'' ?d' \<notin> set (map (index_key None ''id'') (docs ?c))"
      using fresh s1(4) by (simp add: taken_def key_taken_iff index_key_stored_form)
    have new_email: "index_key None ''email'' ?d' \<notin> set (map (index_key None ''email'') (docs ?c))"
      using fresh s1(4) by (simp add: taken_def key_taken_iff index_key_stored_form)
    have "collection_inv (?c\<lparr>next_oid := Suc ?n, docs := docs ?c @ [?d']\<rparr>)"
      using bump stored(2) new_id new_email by (simp add: collection_inv_def)
    then show "store_inv (snd (create u s))" using res s1(2,3) by (simp add: store_inv_def)
  }
qed

lemma create_keeps_inv:
  assumes "store_inv s" and "valid_user (user_db_model s) u"
  shows "store_inv (snd (create u s))"
  using create_well_formed(3,5) [OF assms(1)] assms(2) by blast

subsection \<open>Deleting\<close>

lemma delete_after_init:
  assumes "initialize s = (Inr (), s1)"
  shows "delete u s =
    (Inr (), s1\<lparr>collection := (collection s1)
       \<lparr>docs := delete_first (matches None [(''id'', BUuid (id_of (user_db_model s1) u))])
                  (docs (collection s1))\<rparr>\<rparr>)"
  using assms by (simp add: delete_def delete_one_def)

lemma delete_keeps_inv:
  assumes "store_inv s"
  shows "store_inv (snd (delete u s))"
proof -
  obtain s1 where s1: "initialize s = (Inr (), s1)" "store_inv s1" "initialized s1"
    using assms by (rule initialize_inv)
  have "collection_inv (collection s1)" using s1(2) by (simp add: store_inv_def)
  then have "collection_inv ((collection s1)
      \<lparr>docs := delete_first (matches None [(''id'', BUuid (id_of (user_db_model s1) u))])
                 (docs (collection s1))\<rparr>)"
    by (simp add: collection_inv_def set_delete_first_all distinct_map_delete_first)
  then show ?thesis
    using s1(2,3) by (simp add: delete_after_init [OF s1(1)] store_inv_def)
qed

subsection \<open>Updating\<close>

lemma update_after_init:
  assumes "initialize s = (Inr (), s1)"
  shows "update u s =
    (case replace_one [(''id'', BUuid (id_of (user_db_model s1) u))] (dict (user_db_model s1) u)
            (collection s1) of
       (Inl e, c) \<Rightarrow> (Inl e, s1\<lparr>collection := c\<rparr>)
     | (Inr _, c) \<Rightarrow> (Inr u, s1\<lparr>collection := c\<rparr>))"
  using assms by (simp add: update_def)

lemma replace_one_no_match:
  "\<not> list_ex (matches None flt) (docs c) \<Longrightarrow> replace_one flt d c = (Inr (), c)"
  by (simp add: replace_one_def find_absent)

lemma replace_one_by_id:
  assumes inv: "collection_inv c"
    and ixs: "id_index \<in> set (indexes c)" "email_index \<in> set (indexes c)"
    and d: "map_of d ''_id'' = None" "map_of d ''id'' = Some (BUuid i)"
    and hit: "list_ex (matches None [(''id'', BUuid i)]) (docs c)"
  obtains k where
    "replace_one [(''id'', BUuid i)] d c =
       (if key_taken None ''email'' d (delete_first (matches None [(''id'', BUuid i)]) (docs c))
        then (Inl DuplicateKeyError, c)
        else (Inr (), c\<lparr>docs := replace_first (matches None [(''id'', BUuid i)])
                                   ((''_id'', BObjectId k) # d) (docs c)\<rparr>))"
    "k < next_oid c"
    "\<not> key_taken None ''id'' ((''_id'', BObjectId k) # d)
         (delete_first (matches None [(''id'', BUuid i)]) (docs c))"
proof -
  let ?P = "matches None [(''id'', BUuid i)]"
  let ?others = "delete_first ?P (docs c)"
  obtain old where old: "find ?P (docs c) = Some old" "old \<in> set (docs c)"
    using find_present [OF hit] by blast
  have users: "\<forall>x \<in> set (docs c). user_document (next_oid c) x"
    using inv by (simp add: collection_inv_def list_all_iff)
  then have "user_document (next_oid c) old" using old(2) by simp
  then obtain k where k: "map_of old ''_id'' = Some (BObjectId k)" "k < next_oid c"
    by (rule user_document_fields)
  let ?d' = "(''_id'', BObjectId k) # d"
  have free: "\<not> key_taken None ''id'' ?d' ?others"
  proof
    assume "key_taken None ''id'' ?d' ?others"
    then obtain x where x: "x \<in> set ?others" "index_key None ''id'' x = BUuid i"
      using d(2) by (auto simp add: key_taken_def list_ex_iff index_key_None)
    then have "x \<in> set (docs c)" using set_delete_first [of ?P "docs c"] by blast
    then have "user_document (next_oid c) x" using users by simp
    then have "?P x" using x(2) by (simp add: matches_id_user)
    then show False using no_id_match_left [OF inv, of i] x(1) by (auto simp add: list_ex_iff)
  qed
  then have "duplicate_key (indexes c) ?d' ?others = key_taken None ''email'' d ?others"
    unfolding duplicate_key_own [OF inv ixs] by (simp add: key_taken_def index_key_def)
  then have "replace_one [(''id'', BUuid i)] d c =
       (if key_taken None ''email'' d ?others then (Inl DuplicateKeyError, c)
        else (Inr (), c\<lparr>docs := replace_first ?P ?d' (docs c)\<rparr>))"
    using old(1) k(1) d(1) by (simp add: replace_one_def Let_def)
  then show ?thesis using k(2) free by (rule that)
qed

lemma update_keeps_inv:
  assumes "store_inv s" and "valid_user (user_db_model s) u"
  shows "store_inv (snd (update u s))"
proof -
  let ?m = "user_db_model s"
  let ?i = "id_of ?m u"
  let ?d = "dict ?m u"
  let ?P = "matches None [(''id'', BUuid ?i)]"
  obtain s1 where s1: "initialize s = (Inr (), s1)" "store_inv s1" "initialized s1"
    "docs (collection s1) = docs (collection s)"
    "next_oid (collection s1) = next_oid (collection s)"
    "user_db_model s1 = ?m" "email_collation s1 = email_collation s"
    using assms(1) by (rule initialize_well_formed)
  let ?c = "collection s1"
  have upd: "update u s =
      (case replace_one [(''id'', BUuid ?i)] ?d ?c of
         (Inl e, c) \<Rightarrow> (Inl e, s1\<lparr>collection := c\<rparr>)
       | (Inr _, c) \<Rightarrow> (Inr u, s1\<lparr>collection := c\<rparr>))"
    using s1(6) by (simp add: update_after_init [OF s1(1)])
  have d: "map_of ?d ''_id'' = None" "map_of ?d ''id'' = Some (BUuid ?i)"
    using assms(2) by (simp_all add: valid_user_def)
  have inv: "collection_inv ?c" and ixs: "id_index \<in> set (indexes ?c)" "email_index \<in> set (indexes ?c)"
    using s1(2,3) by (simp_all add: store_inv_def)
  show ?thesis
  proof (cases "list_ex ?P (docs ?c)")
    case False
    then have "replace_one [(''id'', BUuid ?i)] ?d ?c = (Inr (), ?c)"
      by (simp add: replace_one_no_match)
    then show ?thesis using upd s1(2) by simp
  next
    case True
    obtain k where k: "replace_one [(''id'', BUuid ?i)] ?d ?c =
       (if key_taken None ''email'' ?d (delete_first ?P (docs ?c))
        then (Inl DuplicateKeyError, ?c)
        else (Inr (), ?c\<lparr>docs := replace_first ?P ((''_id'', BObjectId k) # ?d) (docs ?c)\<rparr>))"
      "k < next_oid ?c"
      "\<not> key_taken None ''id'' ((''_id'', BObjectId k) # ?d) (delete_first ?P (docs ?c))"
      by (rule replace_one_by_id [OF inv ixs d True])
    let ?d' = "(''_id'', BObjectId k) # ?d"
    show ?thesis
    proof (cases "key_taken None ''email'' ?d (delete_first ?P (docs ?c))")
      case True
      then show ?thesis using upd k(1) s1(2) by simp
    next
      case False
      have res: "update u s = (Inr u, s1\<lparr>collection := ?c\<lparr>docs := replace_first ?P ?d' (docs ?c)\<rparr>\<rparr>)"
        using upd k(1) False by simp
      have "user_document (next_oid ?c) ?d'"
        using assms(2) k(2)
        by (auto simp add: valid_user_def user_document_def split: option.splits bson.splits)
      then have users: "list_all (user_document (next_oid ?c)) (replace_first ?P ?d' (docs ?c))"
        using inv set_replace_first [of ?P ?d' "docs ?c"]
        by (auto simp add: collection_inv_def list_all_iff)
      have "index_key None ''id'' ?d' \<notin> index_key None ''id'' ` set (delete_first ?P (docs ?c))"
        using k(3) by (simp add: key_taken_iff)
      then have ids: "distinct (map (index_key None ''id'') (replace_first ?P ?d' (docs ?c)))"
        using inv by (intro distinct_map_replace_first) (simp_all add: collection_inv_def)
      have "index_key None ''email'' ?d' \<notin> index_key None ''email'' ` set (delete_first ?P (docs ?c))"
        using False by (simp add: key_taken_iff index_key_def)
      then have emails: "distinct (map (index_key None ''email'') (replace_first ?P ?d' (docs ?c)))"
        using inv by (intro distinct_map_replace_first) (simp_all add: collection_inv_def)
      have "collection_inv (?c\<lparr>docs := replace_first ?P ?d' (docs ?c)\<rparr>)"
        using inv users ids emails by (simp add: collection_inv_def)
      then show ?thesis using res s1(2,3) by (simp add: store_inv_def)
    qed
  qed
qed

subsection \<open>Every operation keeps the store well formed\<close>

lemma init_empty_inv: "store_inv (init model empty_collection co)"
  by (simp add: store_inv_def collection_inv_def init_def empty_collection_def)

lemma run_keeps_inv:
  assumes "store_inv s" and "valid_operation (user_db_model s) op"
  shows "store_inv (snd (run op s))"
  using assms
  by (cases op)
    (simp_all add: valid_operation_def snd_returning get_setup get_by_email_setup
      get_by_oauth_account_setup initialize_keeps_inv create_keeps_inv update_keeps_inv
      delete_keeps_inv)

text \<open>Every store reached from a store on an empty collection by operations with valid
  users is well formed.\<close>

lemma run_all_keeps_inv:
  "store_inv s \<Longrightarrow> list_all (valid_operation (user_db_model s)) ops \<Longrightarrow> store_inv (run_all ops s)"
proof (induction ops arbitrary: s)
  case Nil
  then show ?case by simp
next
  case (Cons op ops)
  then have "store_inv (snd (run op s))" by (simp add: run_keeps_inv)
  moreover have "list_all (valid_operation (user_db_model (snd (run op s)))) ops"
    using Cons.prems(2) by (simp add: run_model)
  ultimately show ?case using Cons.IH by simp
qed

lemma reachable_store_inv:
  "list_all (valid_operation model) ops \<Longrightarrow> store_inv (run_all ops (init model empty_collection co))"
  by (rule run_all_keeps_inv) (simp_all add: init_empty_inv, simp add: init_def)

section \<open>The example stores\<close>

lemmas engine_defs = create_index_def insert_one_def stored_form_def key_taken_def
  duplicate_key_def index_key_def collation_key_def find_one_def matches_def leaf_match_def
  value_eq_def replace_one_def delete_one_def

lemmas adapter_defs = init_def initialize_def to_user_def get_def get_by_email_def
  get_by_oauth_account_def create_def update_def delete_def

lemmas model_defs = user_db_model_class_def user_db_dict_def user_db_of_def str_field_def
  oauth_account_of_def oauth_account_dict_def

lemma fresh_store_eq:
  "fresh_store =
     \<lparr>user_db_model = user_db_model_class, collection = empty_collection,
      initialized = False, email_collation = Collation ''en'' 2\<rparr>"
  by (simp add: fresh_store_def init_def)

lemma alice_store_eq:
  "alice_store =
     \<lparr>user_db_model = user_db_model_class,
      collection =
        \<lparr>docs = [alice_document], indexes = [id_index, email_index],
         create_index_calls = [(''id'', True, None), (''email'', True, None)], next_oid = 1\<rparr>,
      initialized = True, email_collation = Collation ''en'' 2\<rparr>"
  by (simp add: alice_store_def fresh_store_def empty_collection_def alice_def alice_document_def
      id_index_def email_index_def engine_defs adapter_defs model_defs)

lemma alice_store_inv: "store_inv alice_store"
  by (simp add: alice_store_eq store_inv_def collection_inv_def user_document_def
      alice_document_def index_key_def id_index_def email_index_def)

lemma alice_bob_store_eq:
  "alice_bob_store =
     \<lparr>user_db_model = user_db_model_class,
      collection =
        \<lparr>docs = [alice_document, bob_document], indexes = [id_index, email_index],
         create_index_calls = [(''id'', True, None), (''email'', True, None)], next_oid = 2\<rparr>,
      initialized = True, email_collation = Collation ''en'' 2\<rparr>"
  by (simp add: alice_bob_store_def alice_store_eq bob_def alice_document_def bob_document_def
      id_index_def email_index_def engine_defs adapter_defs model_defs)

lemma alice_bob_store_inv: "store_inv alice_bob_store"
  by (simp add: alice_bob_store_eq store_inv_def collection_inv_def user_document_def
      alice_document_def bob_document_def index_key_def collation_key_def id_index_def email_index_def)


lemma create_bob: "create bob alice_store = (Inr bob, alice_bob_store)"
  by (simp add: alice_bob_store_eq alice_store_eq bob_def alice_document_def bob_document_def
      id_index_def email_index_def engine_defs adapter_defs model_defs)

lemma initialize_fresh_store: "fst (initialize fresh_store) = Inr ()"
  by (simp add: fresh_store_eq empty_collection_def initialize_def create_index_def index_key_def)

lemma initialize_twin_store: "fst (initialize twin_store) = Inl DuplicateKeyError"
  by (simp add: twin_store_def init_def initialize_def create_index_def index_key_def
      collation_key_def alice_document_def twin_document_def)

section \<open>The claims\<close>

text \<open>
  C1 does not hold of the code: the filter of \<^verbatim>\<open>get_by_oauth_account\<close> has two
  conditions, each is met by any element of the \<^verbatim>\<open>oauth_accounts\<close> array, and nothing ties
  them to the same element. Alice holds the accounts (google, 1) and (github, 2); no
  document holds the pair (google, 2), and the lookup of (google, 2) returns Alice.
\<close>

theorem get_by_oauth_account_mixes_elements:
  "\<not> list_ex (has_oauth_pair ''google'' ''2'') (docs (collection alice_store)) \<and>
   fst (get_by_oauth_account ''google'' ''2'' alice_store) = Inr (Some alice)"
  by (simp add: alice_store_eq alice_def alice_document_def has_oauth_pair_def
      get_by_oauth_account_def initialize_def to_user_def engine_defs model_defs)

text \<open>
  C2, as stated, fails: Alice is stored with the OAuth account (google, 1), Bob has the
  same account, and \<^verbatim>\<open>create\<close> stores Bob: no index covers the OAuth accounts.
\<close>

theorem create_shared_oauth_counterexample:
  "list_ex (has_oauth_pair ''google'' ''1'') (docs (collection alice_store)) \<and>
   has_oauth_pair ''google'' ''1'' (dict (user_db_model alice_store) bob) \<and>
   fst (create bob alice_store) = Inr bob"
proof -
  have "list_ex (has_oauth_pair ''google'' ''1'') (docs (collection alice_store))"
    by (simp add: alice_store_eq alice_document_def has_oauth_pair_def)
  moreover have "has_oauth_pair ''google'' ''1'' (dict (user_db_model alice_store) bob)"
    by (simp add: alice_store_eq has_oauth_pair_def user_db_model_class_def user_db_dict_def
        oauth_account_dict_def bob_def)
  ultimately show ?thesis
    by (simp add: create_bob)
qed

text \<open>
  C2, amended. In a well-formed store holding a document with the OAuth pair \<open>(p, a)\<close>,
  \<^verbatim>\<open>create\<close> of a valid user with the same pair raises the duplicate-key error exactly when
  the user's \<^verbatim>\<open>id\<close> or exactly equal \<^verbatim>\<open>email\<close> is already stored; otherwise it returns the
  user, and the pair is then held by two documents at least.
\<close>

theorem create_shared_oauth:
  assumes "store_inv s" and "valid_user (user_db_model s) u"
    and "list_ex (has_oauth_pair p a) (docs (collection s))"
    and "has_oauth_pair p a (dict (user_db_model s) u)"
  shows "(fst (create u s) = Inl DuplicateKeyError) =
           (key_taken None ''id'' (dict (user_db_model s) u) (docs (collection s)) \<or>
            key_taken None ''email'' (dict (user_db_model s) u) (docs (collection s))) \<and>
         (\<not> key_taken None ''id'' (dict (user_db_model s) u) (docs (collection s)) \<and>
          \<not> key_taken None ''email'' (dict (user_db_model s) u) (docs (collection s)) \<longrightarrow>
            fst (create u s) = Inr u \<and>
            2 \<le> length (filter (has_oauth_pair p a) (docs (collection (snd (create u s))))))"
proof (cases "key_taken None ''id'' (dict (user_db_model s) u) (docs (collection s)) \<or>
              key_taken None ''email'' (dict (user_db_model s) u) (docs (collection s))")
  case True
  then show ?thesis using create_well_formed(1) [OF assms(1) True] by simp
next
  case False
  have created: "fst (create u s) = Inr u"
    using create_well_formed(4) [OF assms(1) False assms(2)] .
  have "docs (collection (snd (create u s))) =
      docs (collection s) @ [stored_form (next_oid (collection s)) (dict (user_db_model s) u)]"
    using create_succeeded [OF created] by simp
  then have "2 \<le> length (filter (has_oauth_pair p a) (docs (collection (snd (create u s)))))"
    using assms(3,4) by (simp only: filter_twice has_oauth_pair_stored_form)
  then show ?thesis using False created by simp
qed

theorem create_shared_oauth_witness:
  "store_inv alice_store \<and>
   list_ex (has_oauth_pair ''google'' ''1'') [alice_document] \<and>
   valid_user user_db_model_class bob \<and>
   has_oauth_pair ''google'' ''1'' (user_db_dict bob) \<and>
   \<not> key_taken None ''id'' (user_db_dict bob) [alice_document] \<and>
   \<not> key_taken None ''email'' (user_db_dict bob) [alice_document] \<and>
   fst (create bob alice_store) = Inr bob \<and>
   2 \<le> length (filter (has_oauth_pair ''google'' ''1'') (docs (collection (snd (create bob alice_store))))) \<and>
   valid_user user_db_model_class alice \<and>
   has_oauth_pair ''google'' ''1'' (user_db_dict alice) \<and>
   key_taken None ''id'' (user_db_dict alice) [alice_document] \<and>
   fst (create alice alice_store) = Inl DuplicateKeyError"
proof -
  have store: "user_db_model alice_store = user_db_model_class"
    "docs (collection alice_store) = [alice_document]"
    by (simp_all add: alice_store_eq)
  have model: "dict user_db_model_class = user_db_dict" "id_of user_db_model_class = uid"
    by (simp_all add: user_db_model_class_def)
  have valid: "valid_user user_db_model_class bob" "valid_user user_db_model_class alice"
    by (simp_all add: valid_user_def model user_db_dict_def bob_def alice_def)
  have pairs: "list_ex (has_oauth_pair ''google'' ''1'') [alice_document]"
    "has_oauth_pair ''google'' ''1'' (user_db_dict bob)"
    "has_oauth_pair ''google'' ''1'' (user_db_dict alice)"
    by (simp_all add: has_oauth_pair_def alice_document_def user_db_dict_def oauth_account_dict_def
        bob_def alice_def)
  have keys: "\<not> key_taken None ''id'' (user_db_dict bob) [alice_document]"
    "\<not> key_taken None ''email'' (user_db_dict bob) [alice_document]"
    "key_taken None ''id'' (user_db_dict alice) [alice_document]"
    by (simp_all add: key_taken_def index_key_def collation_key_def user_db_dict_def bob_def
        alice_def alice_document_def)
  have "fst (create bob alice_store) = Inr bob \<and>
      2 \<le> length (filter (has_oauth_pair ''google'' ''1'') (docs (collection (snd (create bob alice_store)))))"
    using create_shared_oauth [of alice_store bob "''google''" "''1''"] alice_store_inv valid(1)
      pairs(1,2) keys(1,2)
    by (simp add: store model)
  moreover have "fst (create alice alice_store) = Inl DuplicateKeyError"
    using create_shared_oauth [of alice_store alice "''google''" "''1''"] alice_store_inv valid(2)
      pairs(1,3) keys(3)
    by (simp add: store model)
  ultimately show ?thesis
    using alice_store_inv valid pairs keys by simp
qed

text \<open>
  C3. In a well-formed store, for a valid user whose \<^verbatim>\<open>id\<close> and \<^verbatim>\<open>email\<close> no stored
  document has, and whose model reads the stored form of \<^verbatim>\<open>user.dict()\<close> back as the
  user: \<^verbatim>\<open>create\<close> returns the user and a following \<^verbatim>\<open>get\<close> by the user's id returns
  the same user. The store looks at the \<^verbatim>\<open>id\<close> only; every other field travels through
  \<^verbatim>\<open>dict()\<close> and the constructor.
\<close>

theorem create_then_get:
  assumes "store_inv s" and "valid_user (user_db_model s) u"
    and "construct (user_db_model s)
           (stored_form (next_oid (collection s)) (dict (user_db_model s) u)) = Inr u"
    and "\<not> key_taken None ''id'' (dict (user_db_model s) u) (docs (collection s))"
    and "\<not> key_taken None ''email'' (dict (user_db_model s) u) (docs (collection s))"
  shows "fst (create u s) = Inr u \<and>
         fst (get (id_of (user_db_model s) u) (snd (create u s))) = Inr (Some u)"
proof -
  let ?m = "user_db_model s" and ?n = "next_oid (collection s)"
  let ?s' = "snd (create u s)"
  have fresh: "\<not> (key_taken None ''id'' (dict ?m u) (docs (collection s)) \<or>
                   key_taken None ''email'' (dict ?m u) (docs (collection s)))"
    using assms(4,5) by simp
  have created: "fst (create u s) = Inr u"
    using create_well_formed(4) [OF assms(1) fresh assms(2)] .
  have stored: "stored_form ?n (dict ?m u) = (''_id'', BObjectId ?n) # dict ?m u"
    using assms(2) by (rule valid_user_stored)
  have after: "initialized ?s'" "user_db_model ?s' = ?m"
    "docs (collection ?s') = docs (collection s) @ [(''_id'', BObjectId ?n) # dict ?m u]"
    using create_succeeded [OF created] stored by simp_all
  have "list_all (user_document ?n) (docs (collection s))"
    using assms(1) by (simp add: store_inv_def collection_inv_def)
  moreover have "map_of (dict ?m u) ''id'' = Some (BUuid (id_of ?m u))"
    using assms(2) by (simp add: valid_user_def)
  ultimately have "find (matches None [(''id'', BUuid (id_of ?m u))]) (docs (collection ?s')) =
      Some ((''_id'', BObjectId ?n) # dict ?m u)"
    unfolding after(3) using assms(4) by (intro find_id_new) simp_all
  moreover have "fst (initialize ?s') = Inr ()"
    using after(1) by (rule initialized_init)
  ultimately have "fst (get (id_of ?m u) ?s') = Inr (Some u)"
    using assms(3) stored after(2) by (simp add: get_after_init to_user_stored)
  then show ?thesis using created by simp
qed

theorem create_then_get_witness:
  "store_inv alice_store \<and> valid_user user_db_model_class bob \<and>
   user_db_of (stored_form 1 (user_db_dict bob)) = Inr bob \<and>
   \<not> key_taken None ''id'' (user_db_dict bob) [alice_document] \<and>
   \<not> key_taken None ''email'' (user_db_dict bob) [alice_document] \<and>
   fst (create bob alice_store) = Inr bob \<and>
   fst (get 2 (snd (create bob alice_store))) = Inr (Some bob)"
proof -
  have store: "user_db_model alice_store = user_db_model_class"
    "docs (collection alice_store) = [alice_document]" "next_oid (collection alice_store) = 1"
    by (simp_all add: alice_store_eq)
  have model: "construct user_db_model_class = user_db_of" "dict user_db_model_class = user_db_dict"
    "id_of user_db_model_class = uid"
    by (simp_all add: user_db_model_class_def)
  have bob: "uid bob = 2" by (simp add: bob_def)
  have valid: "valid_user user_db_model_class bob"
    by (simp add: valid_user_def model user_db_dict_def bob_def)
  have reads: "user_db_of (stored_form 1 (user_db_dict bob)) = Inr bob"
    by (simp add: stored_form_def model_defs bob_def)
  have free: "\<not> key_taken None ''id'' (user_db_dict bob) [alice_document]"
    "\<not> key_taken None ''email'' (user_db_dict bob) [alice_document]"
    by (simp_all add: key_taken_def index_key_def collation_key_def user_db_dict_def bob_def alice_document_def)
  show ?thesis
    using create_then_get [of alice_store bob] alice_store_inv valid reads free
    by (simp add: store model bob)
qed



text \<open>
  C5. In a well-formed store that already holds a document with the same \<^verbatim>\<open>id\<close> or the
  same exactly equal \<^verbatim>\<open>email\<close> as the user, \<^verbatim>\<open>create\<close> raises the storage engine's
  duplicate-key error and the stored documents are what they were.
\<close>

theorem create_duplicate_rejected:
  assumes "store_inv s"
    and "key_taken None ''id'' (dict (user_db_model s) u) (docs (collection s)) \<or>
         key_taken None ''email'' (dict (user_db_model s) u) (docs (collection s))"
  shows "fst (create u s) = Inl DuplicateKeyError \<and>
         docs (collection (snd (create u s))) = docs (collection s)"
  using create_well_formed(1,2) [OF assms(1)] assms(2) by simp

theorem create_duplicate_rejected_witness:
  "store_inv alice_store \<and>
   key_taken None ''id'' (user_db_dict alice) [alice_document] \<and>
   fst (create alice alice_store) = Inl DuplicateKeyError \<and>
   docs (collection (snd (create alice alice_store))) = [alice_document]"
proof -
  have taken: "key_taken None ''id'' (user_db_dict alice) [alice_document]"
    by (simp add: key_taken_def index_key_def user_db_dict_def alice_def alice_document_def)
  have "user_db_model alice_store = user_db_model_class"
    and "docs (collection alice_store) = [alice_document]"
    by (simp_all add: alice_store_eq)
  then show ?thesis
    using create_duplicate_rejected [of alice_store alice] alice_store_inv taken
    by (simp add: user_db_model_class_def)
qed




text \<open>
  C7, as stated, fails: Alice and Bob are stored, and Alice is updated to carry Bob's
  email. Her id matches her document, yet the storage engine refuses the replacement under
  the unique index on \<^verbatim>\<open>email\<close>, and a following \<^verbatim>\<open>get\<close> still returns the old Alice.
\<close>

theorem update_replaces_counterexample:
  "list_ex (matches None [(''id'', BUuid (uid alice_renamed))]) (docs (collection alice_bob_store)) \<and>
   fst (update alice_renamed alice_bob_store) = Inl DuplicateKeyError \<and>
   fst (get (uid alice_renamed) (snd (update alice_renamed alice_bob_store))) = Inr (Some alice) \<and>
   alice \<noteq> alice_renamed"
  by (simp add: alice_bob_store_eq alice_renamed_def alice_def alice_document_def bob_document_def
      id_index_def email_index_def engine_defs adapter_defs model_defs)

text \<open>
  C7, amended. In a well-formed store, for a valid user that the model reads back from its
  stored form: when no stored document has the user's id, \<^verbatim>\<open>update\<close> returns the user and
  the stored documents are what they were; when a document has the id and no other document
  has the user's email, \<^verbatim>\<open>update\<close> returns the user, the document found by the id is then
  exactly \<^verbatim>\<open>user.dict()\<close> under the old \<^verbatim>\<open>_id\<close>, and \<^verbatim>\<open>get\<close> returns the user; when another
  document has the user's email, \<^verbatim>\<open>update\<close> raises the duplicate-key error and the stored
  documents are what they were.
\<close>

theorem update_replaces:
  assumes "store_inv s" and "valid_user (user_db_model s) u"
    and "\<forall>k. construct (user_db_model s) ((''_id'', BObjectId k) # dict (user_db_model s) u) = Inr u"
  shows
    "(\<not> list_ex (matches None [(''id'', BUuid (id_of (user_db_model s) u))]) (docs (collection s)) \<longrightarrow>
        fst (update u s) = Inr u \<and>
        docs (collection (snd (update u s))) = docs (collection s)) \<and>
     (list_ex (matches None [(''id'', BUuid (id_of (user_db_model s) u))]) (docs (collection s)) \<and>
      \<not> key_taken None ''email'' (dict (user_db_model s) u)
          (delete_first (matches None [(''id'', BUuid (id_of (user_db_model s) u))])
             (docs (collection s))) \<longrightarrow>
        fst (update u s) = Inr u \<and>
        (\<exists>k. find_one [(''id'', BUuid (id_of (user_db_model s) u))] None
                (collection (snd (update u s))) =
              Some ((''_id'', BObjectId k) # dict (user_db_model s) u)) \<and>
        fst (get (id_of (user_db_model s) u) (snd (update u s))) = Inr (Some u)) \<and>
     (list_ex (matches None [(''id'', BUuid (id_of (user_db_model s) u))]) (docs (collection s)) \<and>
      key_taken None ''email'' (dict (user_db_model s) u)
          (delete_first (matches None [(''id'', BUuid (id_of (user_db_model s) u))])
             (docs (collection s))) \<longrightarrow>
        fst (update u s) = Inl DuplicateKeyError \<and>
        docs (collection (snd (update u s))) = docs (collection s))"
proof -
  let ?m = "user_db_model s"
  let ?i = "id_of ?m u"
  let ?d = "dict ?m u"
  let ?P = "matches None [(''id'', BUuid ?i)]"
  obtain s1 where s1: "initialize s = (Inr (), s1)" "store_inv s1" "initialized s1"
    "docs (collection s1) = docs (collection s)"
    "next_oid (collection s1) = next_oid (collection s)"
    "user_db_model s1 = ?m" "email_collation s1 = email_collation s"
    using assms(1) by (rule initialize_well_formed)
  let ?c = "collection s1"
  have upd: "update u s =
      (case replace_one [(''id'', BUuid ?i)] ?d ?c of
         (Inl e, c) \<Rightarrow> (Inl e, s1\<lparr>collection := c\<rparr>)
       | (Inr _, c) \<Rightarrow> (Inr u, s1\<lparr>collection := c\<rparr>))"
    using s1(6) by (simp add: update_after_init [OF s1(1)])
  have d: "map_of ?d ''_id'' = None" "map_of ?d ''id'' = Some (BUuid ?i)"
    using assms(2) by (simp_all add: valid_user_def)
  have miss: "fst (update u s) = Inr u \<and> docs (collection (snd (update u s))) = docs (collection s)"
    if "\<not> list_ex ?P (docs (collection s))"
  proof -
    have "replace_one [(''id'', BUuid ?i)] ?d ?c = (Inr (), ?c)"
      using that s1(4) by (simp add: replace_one_no_match)
    then show ?thesis using upd s1(4) by simp
  qed
  have hit: "(\<not> key_taken None ''email'' ?d (delete_first ?P (docs (collection s))) \<longrightarrow>
        fst (update u s) = Inr u \<and>
        (\<exists>k. find_one [(''id'', BUuid ?i)] None (collection (snd (update u s))) =
              Some ((''_id'', BObjectId k) # ?d)) \<and>
        fst (get ?i (snd (update u s))) = Inr (Some u)) \<and>
     (key_taken None ''email'' ?d (delete_first ?P (docs (collection s))) \<longrightarrow>
        fst (update u s) = Inl DuplicateKeyError \<and>
        docs (collection (snd (update u s))) = docs (collection s))"
    if found: "list_ex ?P (docs (collection s))"
  proof -
    have inv: "collection_inv ?c" and ixs: "id_index \<in> set (indexes ?c)" "email_index \<in> set (indexes ?c)"
      using s1(2,3) by (simp_all add: store_inv_def)
    have found1: "list_ex ?P (docs ?c)" using found s1(4) by simp
    obtain k where k: "replace_one [(''id'', BUuid ?i)] ?d ?c =
       (if key_taken None ''email'' ?d (delete_first ?P (docs ?c))
        then (Inl DuplicateKeyError, ?c)
        else (Inr (), ?c\<lparr>docs := replace_first ?P ((''_id'', BObjectId k) # ?d) (docs ?c)\<rparr>))"
      by (rule replace_one_by_id [OF inv ixs d found1])
    let ?d' = "(''_id'', BObjectId k) # ?d"
    show ?thesis
    proof (cases "key_taken None ''email'' ?d (delete_first ?P (docs (collection s)))")
      case True
      then have "update u s = (Inl DuplicateKeyError, s1\<lparr>collection := ?c\<rparr>)"
        using upd k s1(4) by simp
      then show ?thesis using True s1(4) by simp
    next
      case False
      let ?s' = "s1\<lparr>collection := ?c\<lparr>docs := replace_first ?P ?d' (docs ?c)\<rparr>\<rparr>"
      have res: "update u s = (Inr u, ?s')"
        using upd k s1(4) False by simp
      have "?P ?d'" using d(2) by (simp add: matches_id leaf_match_def value_eq_def)
      then have found': "find ?P (docs (collection ?s')) = Some ?d'"
        using found1 by (simp add: find_replace_first)
      moreover have "fst (initialize ?s') = Inr ()"
        using s1(3) by (simp add: initialized_init)
      moreover have "construct ?m ?d' = Inr u" using assms(3) by simp
      ultimately have "fst (get ?i ?s') = Inr (Some u)"
        using s1(6) by (simp add: get_after_init to_user_stored)
      moreover have "find_one [(''id'', BUuid ?i)] None (collection ?s') = Some ?d'"
        using found' by (simp add: find_one_def)
      ultimately show ?thesis using res False by auto
    qed
  qed
  show ?thesis using miss hit by blast
qed

theorem update_replaces_witness:
  "store_inv alice_bob_store \<and>
   valid_user user_db_model_class carol \<and>
   (\<forall>k. user_db_of ((''_id'', BObjectId k) # user_db_dict carol) = Inr carol) \<and>
   \<not> list_ex (matches None [(''id'', BUuid 3)]) [alice_document, bob_document] \<and>
   fst (update carol alice_bob_store) = Inr carol \<and>
   docs (collection (snd (update carol alice_bob_store))) = [alice_document, bob_document] \<and>
   valid_user user_db_model_class alice_changed \<and>
   (\<forall>k. user_db_of ((''_id'', BObjectId k) # user_db_dict alice_changed) = Inr alice_changed) \<and>
   list_ex (matches None [(''id'', BUuid 1)]) [alice_document, bob_document] \<and>
   delete_first (matches None [(''id'', BUuid 1)]) [alice_document, bob_document] = [bob_document] \<and>
   \<not> key_taken None ''email'' (user_db_dict alice_changed) [bob_document] \<and>
   fst (update alice_changed alice_bob_store) = Inr alice_changed \<and>
   (\<exists>k. find_one [(''id'', BUuid 1)] None (collection (snd (update alice_changed alice_bob_store))) =
         Some ((''_id'', BObjectId k) # user_db_dict alice_changed)) \<and>
   fst (get 1 (snd (update alice_changed alice_bob_store))) = Inr (Some alice_changed) \<and>
   valid_user user_db_model_class alice_renamed \<and>
   (\<forall>k. user_db_of ((''_id'', BObjectId k) # user_db_dict alice_renamed) = Inr alice_renamed) \<and>
   key_taken None ''email'' (user_db_dict alice_renamed) [bob_document] \<and>
   fst (update alice_renamed alice_bob_store) = Inl DuplicateKeyError \<and>
   docs (collection (snd (update alice_renamed alice_bob_store))) = [alice_document, bob_document]"
proof -
  have store: "user_db_model alice_bob_store = user_db_model_class"
    "docs (collection alice_bob_store) = [alice_document, bob_document]"
    by (simp_all add: alice_bob_store_eq)
  have model: "construct user_db_model_class = user_db_of" "dict user_db_model_class = user_db_dict"
    "id_of user_db_model_class = uid"
    by (simp_all add: user_db_model_class_def)
  have id: "uid alice_renamed = 1" "uid alice_changed = 1" "uid carol = 3"
    by (simp_all add: alice_renamed_def alice_changed_def alice_def carol_def)
  have valid: "valid_user user_db_model_class alice_renamed"
    "valid_user user_db_model_class alice_changed" "valid_user user_db_model_class carol"
    by (simp_all add: valid_user_def model user_db_dict_def alice_renamed_def alice_changed_def
        alice_def carol_def)
  have reads: "\<forall>k. user_db_of ((''_id'', BObjectId k) # user_db_dict alice_renamed) = Inr alice_renamed"
    "\<forall>k. user_db_of ((''_id'', BObjectId k) # user_db_dict alice_changed) = Inr alice_changed"
    "\<forall>k. user_db_of ((''_id'', BObjectId k) # user_db_dict carol) = Inr carol"
    by (simp_all add: model_defs alice_renamed_def alice_changed_def alice_def carol_def)
  have found: "list_ex (matches None [(''id'', BUuid 1)]) [alice_document, bob_document]"
    "delete_first (matches None [(''id'', BUuid 1)]) [alice_document, bob_document] = [bob_document]"
    "\<not> list_ex (matches None [(''id'', BUuid 3)]) [alice_document, bob_document]"
    by (simp_all add: matches_def leaf_match_def value_eq_def alice_document_def bob_document_def)
  have taken: "key_taken None ''email'' (user_db_dict alice_renamed) [bob_document]"
    "\<not> key_taken None ''email'' (user_db_dict alice_changed) [bob_document]"
    by (simp_all add: key_taken_def index_key_def collation_key_def user_db_dict_def
        alice_renamed_def alice_changed_def alice_def bob_document_def)
  have "fst (update carol alice_bob_store) = Inr carol \<and>
      docs (collection (snd (update carol alice_bob_store))) = [alice_document, bob_document]"
    using update_replaces [of alice_bob_store carol] alice_bob_store_inv valid(3) reads(3) found(3)
    by (simp add: store model id)
  moreover have "fst (update alice_changed alice_bob_store) = Inr alice_changed \<and>
      (\<exists>k. find_one [(''id'', BUuid 1)] None (collection (snd (update alice_changed alice_bob_store))) =
         Some ((''_id'', BObjectId k) # user_db_dict alice_changed)) \<and>
      fst (get 1 (snd (update alice_changed alice_bob_store))) = Inr (Some alice_changed)"
    using update_replaces [of alice_bob_store alice_changed] alice_bob_store_inv valid(2) reads(2)
      found(1,2) taken(2)
    by (simp add: store model id)
  moreover have "fst (update alice_renamed alice_bob_store) = Inl DuplicateKeyError \<and>
      docs (collection (snd (update alice_renamed alice_bob_store))) = [alice_document, bob_document]"
    using update_replaces [of alice_bob_store alice_renamed] alice_bob_store_inv valid(1) reads(1)
      found(1,2) taken(1)
    by (simp add: store model id)
  ultimately show ?thesis
    using alice_bob_store_inv valid reads found taken by simp
qed

text \<open>
  C8. In a well-formed store \<^verbatim>\<open>delete\<close> returns normally, a following \<^verbatim>\<open>get\<close> by the user's
  id returns \<^verbatim>\<open>None\<close>, and when no stored document has the user's id the stored documents
  are what they were.
\<close>

theorem delete_then_get:
  assumes "store_inv s"
  shows "fst (delete u s) = Inr () \<and>
         fst (get (id_of (user_db_model s) u) (snd (delete u s))) = Inr None \<and>
         (\<not> list_ex (matches None [(''id'', BUuid (id_of (user_db_model s) u))])
              (docs (collection s)) \<longrightarrow>
            docs (collection (snd (delete u s))) = docs (collection s))"
proof -
  let ?P = "matches None [(''id'', BUuid (id_of (user_db_model s) u))]"
  obtain s1 where s1: "initialize s = (Inr (), s1)" "store_inv s1" "initialized s1"
    "docs (collection s1) = docs (collection s)"
    "next_oid (collection s1) = next_oid (collection s)"
    "user_db_model s1 = user_db_model s" "email_collation s1 = email_collation s"
    using assms by (rule initialize_well_formed)
  let ?s' = "s1\<lparr>collection := (collection s1)\<lparr>docs := delete_first ?P (docs (collection s))\<rparr>\<rparr>"
  have res: "delete u s = (Inr (), ?s')"
    using s1(4,6) by (simp add: delete_after_init [OF s1(1)])
  have "collection_inv (collection s)" using assms by (simp add: store_inv_def)
  then have "\<not> list_ex ?P (delete_first ?P (docs (collection s)))"
    by (rule no_id_match_left)
  then have "find ?P (docs (collection ?s')) = None"
    by (simp add: find_absent)
  moreover have "fst (initialize ?s') = Inr ()"
    using s1(3) by (simp add: initialized_init)
  ultimately have "fst (get (id_of (user_db_model s) u) ?s') = Inr None"
    by (simp add: get_after_init to_user_absent)
  then show ?thesis using res by (simp add: delete_first_absent)
qed

theorem delete_then_get_witness:
  "store_inv alice_store \<and>
   fst (delete alice alice_store) = Inr () \<and>
   fst (get 1 (snd (delete alice alice_store))) = Inr None \<and>
   \<not> list_ex (matches None [(''id'', BUuid 2)]) [alice_document] \<and>
   fst (delete bob alice_store) = Inr () \<and>
   docs (collection (snd (delete bob alice_store))) = [alice_document]"
proof -
  have store: "user_db_model alice_store = user_db_model_class"
    "docs (collection alice_store) = [alice_document]"
    by (simp_all add: alice_store_eq)
  have model: "id_of user_db_model_class = uid"
    by (simp add: user_db_model_class_def)
  have ids: "uid alice = 1" "uid bob = 2" by (simp_all add: alice_def bob_def)
  have none: "\<not> list_ex (matches None [(''id'', BUuid 2)]) [alice_document]"
    by (simp add: matches_def leaf_match_def value_eq_def alice_document_def)
  show ?thesis
    using delete_then_get [OF alice_store_inv, of alice] delete_then_get [OF alice_store_inv, of bob]
      alice_store_inv none
    by (simp add: store model ids)
qed

text \<open>
  C9. When lazy initialization does not raise, a lookup whose filter no stored document
  matches returns \<^verbatim>\<open>None\<close> as its value: by id, by email under the store's collation,
  and by OAuth account.
\<close>

theorem lookup_absent:
  assumes "fst (initialize s) = Inr ()"
  shows "(\<not> list_ex (matches None [(''id'', BUuid i)]) (docs (collection s)) \<longrightarrow>
            fst (get i s) = Inr None) \<and>
         (\<not> list_ex (matches (Some (email_collation s)) [(''email'', BString e)])
              (docs (collection s)) \<longrightarrow>
            fst (get_by_email e s) = Inr None) \<and>
         (\<not> list_ex (matches None [(''oauth_accounts.oauth_name'', BString p),
                                   (''oauth_accounts.account_id'', BString a)])
              (docs (collection s)) \<longrightarrow>
            fst (get_by_oauth_account p a s) = Inr None)"
  using assms
  by (simp add: get_after_init get_by_email_after_init get_by_oauth_account_after_init
      find_absent to_user_absent)

theorem lookup_absent_witness:
  "fst (initialize alice_store) = Inr () \<and>
   \<not> list_ex (matches None [(''id'', BUuid 7)]) [alice_document] \<and>
   fst (get 7 alice_store) = Inr None \<and>
   \<not> list_ex (matches (Some (Collation ''en'' 2)) [(''email'', BString ''c@d.org'')])
       [alice_document] \<and>
   fst (get_by_email ''c@d.org'' alice_store) = Inr None \<and>
   \<not> list_ex (matches None [(''oauth_accounts.oauth_name'', BString ''gitlab''),
                            (''oauth_accounts.account_id'', BString ''1'')])
       [alice_document] \<and>
   fst (get_by_oauth_account ''gitlab'' ''1'' alice_store) = Inr None \<and>
   fst (initialize fresh_store) = Inr () \<and>
   \<not> list_ex (matches None [(''id'', BUuid 1)]) [] \<and>
   fst (get 1 fresh_store) = Inr None"
proof -
  have store: "docs (collection alice_store) = [alice_document]"
    "email_collation alice_store = Collation ''en'' 2" "initialized alice_store"
    by (simp_all add: alice_store_eq)
  have ready: "fst (initialize alice_store) = Inr ()"
    using store(3) by (rule initialized_init)
  have none: "\<not> list_ex (matches None [(''id'', BUuid 7)]) [alice_document]"
    "\<not> list_ex (matches (Some (Collation ''en'' 2)) [(''email'', BString ''c@d.org'')])
        [alice_document]"
    "\<not> list_ex (matches None [(''oauth_accounts.oauth_name'', BString ''gitlab''),
                            (''oauth_accounts.account_id'', BString ''1'')])
        [alice_document]"
    by (simp_all add: matches_def leaf_match_def value_eq_def collation_key_def ascii_lower_def
        alice_document_def)
  have empty: "docs (collection fresh_store) = []"
    by (simp add: fresh_store_eq empty_collection_def)
  show ?thesis
    using lookup_absent [OF ready, of 7 "''c@d.org''" "''gitlab''" "''1''"] ready none
      lookup_absent [OF initialize_fresh_store, of 1] initialize_fresh_store
    by (simp add: store empty)
qed

text \<open>
  C10. When lazy initialization raises, the flag was false and stays false, the operation
  that ran it raises the same error and does nothing more, and the next operation issues
  the \<^verbatim>\<open>create_index\<close> call on \<^verbatim>\<open>id\<close> again. When lazy initialization turns the flag from
  false to true, both \<^verbatim>\<open>create_index\<close> calls have returned normally, first the one on
  \<^verbatim>\<open>id\<close>, then the one on \<^verbatim>\<open>email\<close>.
\<close>

theorem failed_initialization:
  "(fst (initialize s) = Inl e \<longrightarrow>
      \<not> initialized s \<and> \<not> initialized (snd (initialize s)) \<and>
      run op s = (Inl e, snd (initialize s)) \<and>
      (\<exists>rest. create_index_calls (collection (snd (run op' (snd (run op s))))) =
         create_index_calls (collection (snd (run op s))) @ (''id'', True, None) # rest)) \<and>
   (\<not> initialized s \<and> initialized (snd (initialize s)) \<longrightarrow>
      fst (initialize s) = Inr () \<and>
      (\<exists>n1 c1 n2. create_index ''id'' True None (collection s) = (Inr n1, c1) \<and>
         create_index ''email'' True None c1 = (Inr n2, collection (snd (initialize s)))))"
proof -
  have failed: "\<not> initialized s \<and> \<not> initialized (snd (initialize s)) \<and>
      run op s = (Inl e, snd (initialize s)) \<and>
      (\<exists>rest. create_index_calls (collection (snd (run op' (snd (run op s))))) =
         create_index_calls (collection (snd (run op s))) @ (''id'', True, None) # rest)"
    if "fst (initialize s) = Inl e"
  proof -
    have not_yet: "\<not> initialized s"
      using that by (auto simp add: initialize_done)
    then have still: "\<not> initialized (snd (initialize s))"
      using that by (simp add: initialize_flag)
    have res: "run op s = (Inl e, snd (initialize s))"
      using that by (rule run_failed)
    obtain rest where "create_index_calls (collection (snd (initialize (snd (initialize s))))) =
        create_index_calls (collection (snd (initialize s))) @ (''id'', True, None) # rest"
      using initialize_attempt [OF still] by blast
    then have "create_index_calls (collection (snd (run op' (snd (run op s))))) =
        create_index_calls (collection (snd (run op s))) @ (''id'', True, None) # rest"
      using run_setup [of op' "snd (initialize s)"] res by (simp add: same_setup_def)
    then show ?thesis using not_yet still res by blast
  qed
  have succeeded: "fst (initialize s) = Inr () \<and>
      (\<exists>n1 c1 n2. create_index ''id'' True None (collection s) = (Inr n1, c1) \<and>
         create_index ''email'' True None c1 = (Inr n2, collection (snd (initialize s))))"
    if "\<not> initialized s" and "initialized (snd (initialize s))"
  proof -
    have "fst (initialize s) = Inr ()"
      using that by (simp add: initialize_flag)
    then show ?thesis using initialize_both_calls(3) [OF that(1)] by simp
  qed
  show ?thesis using failed succeeded by blast
qed

theorem failed_initialization_witness:
  "fst (initialize twin_store) = Inl DuplicateKeyError \<and>
   \<not> initialized twin_store \<and> \<not> initialized (snd (initialize twin_store)) \<and>
   run (Get 1) twin_store = (Inl DuplicateKeyError, snd (initialize twin_store)) \<and>
   (\<exists>rest. create_index_calls (collection (snd (run (Create carol) (snd (run (Get 1) twin_store))))) =
      create_index_calls (collection (snd (run (Get 1) twin_store))) @ (''id'', True, None) # rest) \<and>
   \<not> initialized fresh_store \<and> initialized (snd (initialize fresh_store)) \<and>
   fst (initialize fresh_store) = Inr () \<and>
   (\<exists>n1 c1 n2. create_index ''id'' True None (collection fresh_store) = (Inr n1, c1) \<and>
      create_index ''email'' True None c1 = (Inr n2, collection (snd (initialize fresh_store))))"
proof -
  have fresh: "\<not> initialized fresh_store"
    by (simp add: fresh_store_eq)
  have set_up: "initialized (snd (initialize fresh_store))"
    using initialize_fresh_store by (simp add: initialize_flag)
  show ?thesis
    using failed_initialization [of twin_store DuplicateKeyError "Get 1" "Create carol"]
      failed_initialization [of fresh_store]
      initialize_twin_store fresh set_up
    by blast
qed

end
